theory Spec2Isabelle
  imports Main
begin

section \<open>Data model (comm.h, tracking.cpp)\<close>

text \<open>
  Timestamps are the \<open>int64_t\<close> nanosecond offsets of \<open>comm.h\<close>. They are modelled as
  unbounded integers: signed overflow is undefined in C++, and a nanosecond counter that
  starts at process start stays far below \<open>2^63\<close>.

  A \<open>const char*\<close> that the source tests against null (\<open>file_name\<close> of
  \<open>start_preprocess_file\<close>, \<open>scope_name\<close> of \<open>FinishedFunction\<close>, the \<open>opt_pass*\<close> of
  \<open>start_opt_pass\<close>, the \<open>cpp_reader*\<close>) is an \<open>option\<close>; the other C strings are
  \<open>string\<close>.
\<close>

type_synonym TimeStamp = int

record TimeSpan =
  ts_start :: int
  ts_end :: int

datatype EventCategory =
  TU | PREPROCESS | FUNCTION | STRUCT | NAMESPACE
  | GIMPLE_PASS | RTL_PASS | SIMPLE_IPA_PASS | IPA_PASS | UNKNOWN

record TraceEvent =
  ev_name :: string
  ev_category :: EventCategory
  ev_ts :: TimeSpan
  ev_args :: "(string \<times> string) list option"

text \<open>
  \<open>FinishedFunction\<close> without its member \<open>decl\<close>, an opaque pointer that the tracker
  never reads.
\<close>

record FinishedFunction =
  ff_name :: string
  ff_file_name :: string
  ff_scope_name :: "string option"
  ff_scope_type :: EventCategory

text \<open>GCC's \<open>opt_pass\<close>, reduced to the three members the plugin reads.\<close>

datatype opt_pass_type = OPT_GIMPLE_PASS | OPT_RTL_PASS | OPT_SIMPLE_IPA_PASS | OPT_IPA_PASS

record opt_pass =
  pass_name :: string
  pass_type_of :: opt_pass_type
  static_pass_number :: int

record OptPassEvent =
  pass :: "opt_pass option"
  pass_ts :: TimeSpan

record ScopeEvent =
  scope_ev_name :: string
  scope_ev_type :: EventCategory
  scope_ev_ts :: TimeSpan

record FunctionEvent =
  fn_ev_name :: string
  fn_ev_file_name :: string
  fn_ev_ts :: TimeSpan

text \<open>
  What \<open>start_preprocess_file\<close> reads through a non-null \<open>cpp_reader*\<close>: the name of the
  directory of the current buffer's file
  (\<open>cpp_get_dir (cpp_get_file (cpp_get_buffer pfile))->name\<close>).
\<close>

record cpp_reader =
  cpp_dir_name :: string

text \<open>
  The file-scope variables of \<open>tracking.cpp\<close>, together with the static local
  \<open>did_last_function_have_scope\<close> of \<open>end_parse_function\<close>, as one record. \<open>ticks\<close>
  counts the clock readings taken so far: the clock itself is a parameter
  \<open>clk :: nat \<Rightarrow> int\<close>, whose \<open>n\<close>-th value is what the \<open>n\<close>-th call of
  \<open>ns_from_start\<close> returns. The stack has its top at the head of the list.
\<close>

record tracker =
  ticks :: nat
  preprocess_start :: "string \<rightharpoonup> int"
  preprocess_end :: "string \<rightharpoonup> int"
  preprocessing_stack :: "string list"
  last_function_parsed_ts :: int
  last_pass :: OptPassEvent
  pass_events :: "OptPassEvent list"
  file_to_include_directory :: "string \<rightharpoonup> string"
  normalized_files_map :: "string \<rightharpoonup> string"
  normalized_files :: "string set"
  conflicted_files :: "string set"
  scope_events :: "ScopeEvent list"
  function_events :: "FunctionEvent list"
  did_last_function_have_scope :: bool

text \<open>
  Failures of the source: \<open>std::string::substr\<close> and \<open>unordered_map::at\<close> throw
  \<open>std::out_of_range\<close>; \<open>top\<close> and \<open>pop\<close> on an empty \<open>std::stack\<close>, and reading
  through a null \<open>opt_pass*\<close>, have no defined behaviour. Each is a result of its own, and
  a call that fails ends the run.
\<close>

datatype error = OutOfRange | EmptyStack | NullPointer

text \<open>The tracker when the plugin is loaded: the globals are zero-initialised or empty.\<close>

definition init_tracker :: tracker where
  "init_tracker =
     \<lparr>ticks = 0, preprocess_start = Map.empty, preprocess_end = Map.empty,
      preprocessing_stack = [], last_function_parsed_ts = 0,
      last_pass = \<lparr>pass = None, pass_ts = \<lparr>ts_start = 0, ts_end = 0\<rparr>\<rparr>,
      pass_events = [], file_to_include_directory = Map.empty,
      normalized_files_map = Map.empty, normalized_files = {}, conflicted_files = {},
      scope_events = [], function_events = [], did_last_function_have_scope = False\<rparr>"

definition CIRCULAR_POISON_VALUE :: string where
  "CIRCULAR_POISON_VALUE = ''CIRCULAR_POISON_VALUE''"

definition ns_from_start :: "(nat \<Rightarrow> int) \<Rightarrow> tracker \<Rightarrow> int \<times> tracker" where
  "ns_from_start clk s = (clk (ticks s), s\<lparr>ticks := Suc (ticks s)\<rparr>)"

definition contains :: "('k \<rightharpoonup> 'v) \<Rightarrow> 'k \<Rightarrow> bool" where
  "contains m k = (m k \<noteq> None)"

text \<open>
  \<open>operator[]\<close> of \<open>unordered_map<string, string>\<close>: a missing key is inserted with the
  empty string before its value is returned.
\<close>

definition map_index :: "(string \<rightharpoonup> string) \<Rightarrow> string \<Rightarrow> string \<times> (string \<rightharpoonup> string)" where
  "map_index m k = (case m k of None \<Rightarrow> ([], m(k \<mapsto> [])) | Some v \<Rightarrow> (v, m))"

section \<open>File-name normalisation\<close>

definition starts_with :: "string \<Rightarrow> string \<Rightarrow> bool" where
  "starts_with s p = (take (length p) s = p)"

definition substr :: "string \<Rightarrow> nat \<Rightarrow> error + string" where
  "substr s pos = (if pos > length s then Inl OutOfRange else Inr (drop pos s))"

definition register_include_location :: "string \<Rightarrow> string \<Rightarrow> tracker \<Rightarrow> error + tracker" where
  "register_include_location file_name dir_name s =
     (if \<not> contains (file_to_include_directory s) file_name then
        let s1 = s\<lparr>file_to_include_directory := (file_to_include_directory s)(file_name \<mapsto> dir_name)\<rparr>
        in if starts_with file_name dir_name then
             (case substr file_name (length dir_name + 1) of
                Inl e \<Rightarrow> Inl e
              | Inr normalized_file \<Rightarrow>
                  let s2 = s1\<lparr>normalized_files_map := (normalized_files_map s1)(file_name \<mapsto> normalized_file)\<rparr>
                  in if normalized_file \<in> normalized_files s2
                     then Inr (s2\<lparr>conflicted_files := insert normalized_file (conflicted_files s2)\<rparr>)
                     else Inr (s2\<lparr>normalized_files := insert normalized_file (normalized_files s2)\<rparr>))
           else Inr s1
      else Inr s)"

text \<open>
  \<open>normalized_file_name\<close> returns the tracker as well, so that the insertion
  \<open>operator[]\<close> could make is visible.
\<close>

definition normalized_file_name :: "string \<Rightarrow> tracker \<Rightarrow> string \<times> tracker" where
  "normalized_file_name file_name s =
     (if contains (normalized_files_map s) file_name then
        let (v, m1) = map_index (normalized_files_map s) file_name;
            s1 = s\<lparr>normalized_files_map := m1\<rparr>
        in if v \<notin> conflicted_files s1 then
             let (v2, m2) = map_index (normalized_files_map s1) file_name
             in (v2, s1\<lparr>normalized_files_map := m2\<rparr>)
           else (file_name, s1)
      else (file_name, s))"

section \<open>Preprocessing (file inclusion) tracking\<close>

definition end_preprocess_file :: "(nat \<Rightarrow> int) \<Rightarrow> tracker \<Rightarrow> error + tracker" where
  "end_preprocess_file clk s0 =
     (let (now, s) = ns_from_start clk s0 in
      case preprocessing_stack s of
        [] \<Rightarrow> Inl EmptyStack
      | top_file # rest \<Rightarrow>
          let s1 = (if \<not> contains (preprocess_end s) top_file
                    then s\<lparr>preprocess_end := (preprocess_end s)(top_file \<mapsto> now)\<rparr> else s)
          in Inr (s1\<lparr>preprocessing_stack := rest, last_function_parsed_ts := now + 3\<rparr>))"

function finish_preprocessing_stage :: "(nat \<Rightarrow> int) \<Rightarrow> tracker \<Rightarrow> error + tracker" where
  "finish_preprocessing_stage clk s =
     (if preprocessing_stack s \<noteq> [] then
        (case end_preprocess_file clk s of
           Inl e \<Rightarrow> Inl e
         | Inr s1 \<Rightarrow>
             finish_preprocessing_stage clk
               (snd (ns_from_start clk s1)
                  \<lparr>last_function_parsed_ts := fst (ns_from_start clk s1)\<rparr>))
      else Inr s)"
  by pat_completeness auto
termination
  by (relation "measure (\<lambda>(clk, s). length (preprocessing_stack s))")
     (auto simp: end_preprocess_file_def ns_from_start_def Let_def split: list.splits if_splits)

declare finish_preprocessing_stage.simps [simp del]

definition start_preprocess_file ::
  "(nat \<Rightarrow> int) \<Rightarrow> (string \<Rightarrow> string option) \<Rightarrow> string option \<Rightarrow> cpp_reader option
     \<Rightarrow> tracker \<Rightarrow> error + tracker" where
  "start_preprocess_file clk realpath file_name pfile s0 =
     (let (now, s) = ns_from_start clk s0 in
      case file_name of
        None \<Rightarrow> Inr s
      | Some fname \<Rightarrow>
          if fname = ''<command-line>'' then Inr s
          else
            let circular = (contains (preprocess_start s) fname \<and> \<not> contains (preprocess_end s) fname);
                fname1 = (if circular then CIRCULAR_POISON_VALUE else fname);
                pfile1 = (if circular then None else pfile);
                s1 = (if \<not> contains (preprocess_start s) fname1
                      then s\<lparr>preprocess_start := (preprocess_start s)(fname1 \<mapsto> now)\<rparr> else s);
                s2 = s1\<lparr>preprocessing_stack := fname1 # preprocessing_stack s1\<rparr>
            in case pfile1 of
                 None \<Rightarrow> Inr s2
               | Some r \<Rightarrow>
                   (case (realpath (cpp_dir_name r), realpath fname1) of
                      (Some real_dir_name, Some real_file_name) \<Rightarrow>
                        register_include_location real_file_name real_dir_name s2
                    | _ \<Rightarrow> Inr s2))"

section \<open>Optimisation-pass tracking\<close>

definition start_opt_pass :: "(nat \<Rightarrow> int) \<Rightarrow> opt_pass option \<Rightarrow> tracker \<Rightarrow> tracker" where
  "start_opt_pass clk p s0 =
     (let (now, s) = ns_from_start clk s0;
          closed = (last_pass s)\<lparr>pass_ts := (pass_ts (last_pass s))\<lparr>ts_end := now\<rparr>\<rparr>;
          s1 = (if pass closed \<noteq> None
                then s\<lparr>last_pass := closed, pass_events := pass_events s @ [closed]\<rparr>
                else s\<lparr>last_pass := closed\<rparr>)
      in s1\<lparr>last_pass := (last_pass s1)\<lparr>pass := p,
                 pass_ts := (pass_ts (last_pass s1))\<lparr>ts_start := now + 1\<rparr>\<rparr>\<rparr>)"

text \<open>
  The \<open>switch\<close> of \<open>pass_type\<close> covers the four enumerators of \<open>opt_pass_type\<close>; the
  \<open>return UNKNOWN\<close> after it is reached by no value of the enumeration.
\<close>

definition pass_type :: "opt_pass_type \<Rightarrow> EventCategory" where
  "pass_type t =
     (case t of OPT_GIMPLE_PASS \<Rightarrow> GIMPLE_PASS | OPT_RTL_PASS \<Rightarrow> RTL_PASS
      | OPT_SIMPLE_IPA_PASS \<Rightarrow> SIMPLE_IPA_PASS | OPT_IPA_PASS \<Rightarrow> IPA_PASS)"

section \<open>Function and scope recording\<close>

definition end_parse_function :: "(nat \<Rightarrow> int) \<Rightarrow> FinishedFunction \<Rightarrow> tracker \<Rightarrow> tracker" where
  "end_parse_function clk info s0 =
     (let (now, s) = ns_from_start clk s0;
          ts = \<lparr>ts_start = last_function_parsed_ts s + 3, ts_end = now\<rparr>;
          s1 = s\<lparr>last_function_parsed_ts := now,
                 function_events := function_events s @
                   [\<lparr>fn_ev_name = ff_name info, fn_ev_file_name = ff_file_name info, fn_ev_ts = ts\<rparr>]\<rparr>
      in case ff_scope_name info of
           Some scope_name \<Rightarrow>
             (if scope_events s1 \<noteq> [] \<and> did_last_function_have_scope s1
                   \<and> scope_ev_name (last (scope_events s1)) = scope_name
              then s1\<lparr>scope_events := butlast (scope_events s1) @
                        [(last (scope_events s1))
                           \<lparr>scope_ev_ts := (scope_ev_ts (last (scope_events s1)))\<lparr>ts_end := ts_end ts + 1\<rparr>\<rparr>],
                      did_last_function_have_scope := True\<rparr>
              else s1\<lparr>scope_events := scope_events s1 @
                        [\<lparr>scope_ev_name = scope_name, scope_ev_type = ff_scope_type info,
                          scope_ev_ts = \<lparr>ts_start = ts_start ts - 1, ts_end = ts_end ts + 1\<rparr>\<rparr>],
                      did_last_function_have_scope := True\<rparr>)
         | None \<Rightarrow> s1\<lparr>did_last_function_have_scope := False\<rparr>)"

section \<open>Trace output (perf_output.cpp)\<close>

text \<open>
  One element of the \<open>traceEvents\<close> array. \<open>j_ts\<close> is the nanosecond timestamp handed to
  \<open>new_event\<close>; the JSON number is that value times \<open>0.001\<close> in floating point, which is
  not modelled. \<open>j_uid\<close> is the \<open>UID\<close> member of \<open>args\<close>, \<open>j_args\<close> the members copied from
  the event's own arguments (the keys \<open>static_pass_number\<close> and \<open>file\<close>, never \<open>UID\<close>).
\<close>

record json_event =
  j_name :: string
  j_ph :: string
  j_cat :: string
  j_ts :: int
  j_pid :: int
  j_tid :: int
  j_uid :: int
  j_args :: "(string \<times> string) list"

text \<open>
  The static counter \<open>UID\<close> of \<open>add_event\<close> and the array \<open>output_events_list\<close>. The
  counter is an \<open>int\<close> that starts at 0 and grows by one per event kept; it is modelled
  without a bound.
\<close>

record trace_output =
  UID :: int
  output_events_list :: "json_event list"

definition init_output :: trace_output where
  "init_output = \<lparr>UID = 0, output_events_list = []\<rparr>"

definition MINIMUM_EVENT_LENGTH_NS :: int where
  "MINIMUM_EVENT_LENGTH_NS = 1000000"

definition category_string :: "EventCategory \<Rightarrow> string" where
  "category_string cat =
     (case cat of TU \<Rightarrow> ''TU'' | PREPROCESS \<Rightarrow> ''PREPROCESS'' | FUNCTION \<Rightarrow> ''FUNCTION''
      | STRUCT \<Rightarrow> ''STRUCT'' | NAMESPACE \<Rightarrow> ''NAMESPACE'' | GIMPLE_PASS \<Rightarrow> ''GIMPLE_PASS''
      | RTL_PASS \<Rightarrow> ''RTL_PASS'' | SIMPLE_IPA_PASS \<Rightarrow> ''SIMPLE_IPA_PASS''
      | IPA_PASS \<Rightarrow> ''IPA_PASS'' | UNKNOWN \<Rightarrow> ''UNKNOWN'')"

definition new_event :: "TraceEvent \<Rightarrow> int \<Rightarrow> int \<Rightarrow> int \<Rightarrow> string \<Rightarrow> int \<Rightarrow> json_event" where
  "new_event event pid tid ts phase this_uid =
     \<lparr>j_name = ev_name event, j_ph = phase, j_cat = category_string (ev_category event),
      j_ts = ts, j_pid = pid, j_tid = tid, j_uid = this_uid,
      j_args = (case ev_args event of None \<Rightarrow> [] | Some kvs \<Rightarrow> kvs)\<rparr>"

definition add_event :: "int \<Rightarrow> TraceEvent \<Rightarrow> trace_output \<Rightarrow> trace_output" where
  "add_event pid event out =
     (if ts_end (ev_ts event) - ts_start (ev_ts event) < MINIMUM_EVENT_LENGTH_NS then out
      else
        let this_uid = UID out
        in out\<lparr>UID := UID out + 1,
               output_events_list := output_events_list out @
                 [new_event event pid 0 (ts_start (ev_ts event)) ''B'' this_uid,
                  new_event event pid 0 (ts_end (ev_ts event)) ''E'' this_uid]\<rparr>)"

text \<open>\<open>std::to_string\<close> on an \<open>int\<close>: decimal digits, with a minus sign below zero.\<close>

fun string_of_nat :: "nat \<Rightarrow> string" where
  "string_of_nat n =
     (if n < 10 then [''0123456789'' ! n]
      else string_of_nat (n div 10) @ [''0123456789'' ! (n mod 10)])"

definition to_string :: "int \<Rightarrow> string" where
  "to_string i = (if i < 0 then CHR ''-'' # string_of_nat (nat (- i)) else string_of_nat (nat i))"

section \<open>Writing the collected events\<close>

text \<open>
  The loop of \<open>write_preprocessing_events\<close> walks \<open>preprocess_start\<close>, an
  \<open>unordered_map\<close> whose iteration order is unspecified. The model takes the walk as a
  parameter \<open>items\<close>, the key/value pairs in the order the iterator yields them;
  \<open>enumerates\<close> says that a list is such a walk of a map.
\<close>

definition enumerates :: "('k \<times> 'v) list \<Rightarrow> ('k \<rightharpoonup> 'v) \<Rightarrow> bool" where
  "enumerates items m = (distinct (map fst items) \<and> map_of items = m)"

fun write_preprocessing_loop ::
  "int \<Rightarrow> (string \<times> int) list \<Rightarrow> tracker \<Rightarrow> trace_output \<Rightarrow> error + tracker \<times> trace_output" where
  "write_preprocessing_loop pid [] s out = Inr (s, out)"
| "write_preprocessing_loop pid ((file, start) # rest) s out =
     (if file = CIRCULAR_POISON_VALUE then write_preprocessing_loop pid rest s out
      else
        case preprocess_end s file of
          None \<Rightarrow> Inl OutOfRange
        | Some end_ts \<Rightarrow>
            let (nm, s1) = normalized_file_name file s
            in write_preprocessing_loop pid rest s1
                 (add_event pid
                    \<lparr>ev_name = nm, ev_category = PREPROCESS,
                     ev_ts = \<lparr>ts_start = start, ts_end = end_ts\<rparr>, ev_args = None\<rparr> out))"

definition write_preprocessing_events ::
  "int \<Rightarrow> (nat \<Rightarrow> int) \<Rightarrow> (string \<times> int) list \<Rightarrow> tracker \<Rightarrow> trace_output
     \<Rightarrow> error + tracker \<times> trace_output" where
  "write_preprocessing_events pid clk items s out =
     (case finish_preprocessing_stage clk s of
        Inl e \<Rightarrow> Inl e
      | Inr s1 \<Rightarrow> write_preprocessing_loop pid items s1 out)"

text \<open>The \<open>TraceEvent\<close> that \<open>write_opt_pass_events\<close> builds from a pass and its span.\<close>

definition pass_trace_event :: "opt_pass \<Rightarrow> TimeSpan \<Rightarrow> TraceEvent" where
  "pass_trace_event p ts =
     \<lparr>ev_name = pass_name p, ev_category = pass_type (pass_type_of p), ev_ts = ts,
      ev_args = Some [(''static_pass_number'', to_string (static_pass_number p))]\<rparr>"

fun write_opt_pass_loop :: "int \<Rightarrow> OptPassEvent list \<Rightarrow> trace_output \<Rightarrow> error + trace_output" where
  "write_opt_pass_loop pid [] out = Inr out"
| "write_opt_pass_loop pid (event # rest) out =
     (case pass event of
        None \<Rightarrow> Inl NullPointer
      | Some p \<Rightarrow>
          write_opt_pass_loop pid rest (add_event pid (pass_trace_event p (pass_ts event)) out))"

definition write_opt_pass_events :: "int \<Rightarrow> tracker \<Rightarrow> trace_output \<Rightarrow> error + trace_output" where
  "write_opt_pass_events pid s out = write_opt_pass_loop pid (pass_events s) out"

fun write_functions_loop :: "int \<Rightarrow> FunctionEvent list \<Rightarrow> tracker \<Rightarrow> trace_output \<Rightarrow> tracker \<times> trace_output" where
  "write_functions_loop pid [] s out = (s, out)"
| "write_functions_loop pid (f # rest) s out =
     (let (nm, s1) = normalized_file_name (fn_ev_file_name f) s
      in write_functions_loop pid rest s1
           (add_event pid
              \<lparr>ev_name = fn_ev_name f, ev_category = FUNCTION, ev_ts = fn_ev_ts f,
               ev_args = Some [(''file'', nm)]\<rparr> out))"

definition write_all_functions :: "int \<Rightarrow> tracker \<Rightarrow> trace_output \<Rightarrow> tracker \<times> trace_output" where
  "write_all_functions pid s out = write_functions_loop pid (function_events s) s out"

fun write_scopes_loop :: "int \<Rightarrow> ScopeEvent list \<Rightarrow> trace_output \<Rightarrow> trace_output" where
  "write_scopes_loop pid [] out = out"
| "write_scopes_loop pid (e # rest) out =
     write_scopes_loop pid rest
       (add_event pid
          \<lparr>ev_name = scope_ev_name e, ev_category = scope_ev_type e, ev_ts = scope_ev_ts e,
           ev_args = None\<rparr> out)"

definition write_all_scopes :: "int \<Rightarrow> tracker \<Rightarrow> trace_output \<Rightarrow> trace_output" where
  "write_all_scopes pid s out = write_scopes_loop pid (scope_events s) out"

text \<open>
  \<open>write_all_events\<close> up to the serialisation: the result is the tracker and the event
  array that \<open>dump\<close> then prints. \<open>pid\<close> is what \<open>getpid\<close> returned.
\<close>

definition write_all_events ::
  "int \<Rightarrow> (nat \<Rightarrow> int) \<Rightarrow> (string \<times> int) list \<Rightarrow> tracker \<Rightarrow> trace_output
     \<Rightarrow> error + tracker \<times> trace_output" where
  "write_all_events pid clk items s0 out0 =
     (let (now, s) = ns_from_start clk s0;
          out1 = add_event pid
                   \<lparr>ev_name = ''TU'', ev_category = TU,
                    ev_ts = \<lparr>ts_start = 0, ts_end = now\<rparr>, ev_args = None\<rparr> out0
      in case write_preprocessing_events pid clk items s out1 of
           Inl e \<Rightarrow> Inl e
         | Inr (s2, out2) \<Rightarrow>
             (case write_opt_pass_events pid s2 out2 of
                Inl e \<Rightarrow> Inl e
              | Inr out3 \<Rightarrow>
                  let (s4, out4) = write_all_functions pid s2 out3
                  in Inr (s4, write_all_scopes pid s4 out4)))"

section \<open>Callback sequences\<close>

text \<open>
  The operations the host's callbacks reach (\<open>plugin.cpp\<close>): \<open>cb_file_change\<close> calls
  \<open>start_preprocess_file\<close> and \<open>end_preprocess_file\<close>, \<open>cb_finish_decl\<close> calls
  \<open>finish_preprocessing_stage\<close>, \<open>cb_pass_execution\<close> calls \<open>start_opt_pass\<close> and
  \<open>cb_finish_parse_function\<close> calls \<open>end_parse_function\<close>. A run is a list of them, applied
  in order to the tracker; it stops at the first call that fails.
\<close>

datatype callback =
  StartPreprocessFile "string option" "cpp_reader option"
  | EndPreprocessFile
  | FinishPreprocessingStage
  | StartOptPass "opt_pass option"
  | EndParseFunction FinishedFunction

fun step :: "(nat \<Rightarrow> int) \<Rightarrow> (string \<Rightarrow> string option) \<Rightarrow> callback \<Rightarrow> tracker \<Rightarrow> error + tracker" where
  "step clk realpath (StartPreprocessFile file_name pfile) s =
     start_preprocess_file clk realpath file_name pfile s"
| "step clk realpath EndPreprocessFile s = end_preprocess_file clk s"
| "step clk realpath FinishPreprocessingStage s = finish_preprocessing_stage clk s"
| "step clk realpath (StartOptPass p) s = Inr (start_opt_pass clk p s)"
| "step clk realpath (EndParseFunction info) s = Inr (end_parse_function clk info s)"

fun run :: "(nat \<Rightarrow> int) \<Rightarrow> (string \<Rightarrow> string option) \<Rightarrow> callback list \<Rightarrow> tracker \<Rightarrow> error + tracker" where
  "run clk realpath [] s = Inr s"
| "run clk realpath (c # cs) s =
     (case step clk realpath c s of Inl e \<Rightarrow> Inl e | Inr s1 \<Rightarrow> run clk realpath cs s1)"

text \<open>A monotone clock: a later reading is never smaller than an earlier one.\<close>

definition monotone_clock :: "(nat \<Rightarrow> int) \<Rightarrow> bool" where
  "monotone_clock clk = (\<forall>i j. i \<le> j \<longrightarrow> clk i \<le> clk j)"

section \<open>Auxiliary definitions for the statements\<close>

text \<open>Successive calls of \<open>add_event\<close>, one for each event of a list, in order.\<close>

fun add_events :: "int \<Rightarrow> TraceEvent list \<Rightarrow> trace_output \<Rightarrow> trace_output" where
  "add_events pid [] out = out"
| "add_events pid (e # es) out = add_events pid es (add_event pid e out)"

text \<open>The two records \<open>add_event\<close> appends for an event it keeps, under a given \<open>UID\<close>.\<close>

definition event_pair :: "int \<Rightarrow> int \<Rightarrow> TraceEvent \<Rightarrow> json_event list" where
  "event_pair pid uid e =
     [new_event e pid 0 (ts_start (ev_ts e)) ''B'' uid,
      new_event e pid 0 (ts_end (ev_ts e)) ''E'' uid]"

text \<open>The events that pass the test at the head of \<open>add_event\<close>.\<close>

definition long_enough :: "TraceEvent \<Rightarrow> bool" where
  "long_enough e = (\<not> ts_end (ev_ts e) - ts_start (ev_ts e) < MINIMUM_EVENT_LENGTH_NS)"

text \<open>Sample inputs: a clock that advances 2 ms with every reading, and a function event.\<close>

definition clock_2ms :: "nat \<Rightarrow> int" where
  "clock_2ms n = 2000000 * int n"

definition no_realpath :: "string \<Rightarrow> string option" where
  "no_realpath p = None"

definition sample_event :: "string \<Rightarrow> int \<Rightarrow> int \<Rightarrow> TraceEvent" where
  "sample_event n a b =
     \<lparr>ev_name = n, ev_category = FUNCTION, ev_ts = \<lparr>ts_start = a, ts_end = b\<rparr>, ev_args = None\<rparr>"

definition sample_function :: "string \<Rightarrow> string option \<Rightarrow> FinishedFunction" where
  "sample_function n sc =
     \<lparr>ff_name = n, ff_file_name = ''main.cpp'', ff_scope_name = sc, ff_scope_type = NAMESPACE\<rparr>"

text \<open>
  Every file that has a start time has an end time or is still on the stack.
\<close>

definition open_files_on_stack :: "tracker \<Rightarrow> bool" where
  "open_files_on_stack s =
     (\<forall>f. contains (preprocess_start s) f \<longrightarrow>
          contains (preprocess_end s) f \<or> f \<in> set (preprocessing_stack s))"

text \<open>A \<open>realpath\<close> for a file system without symbolic links.\<close>

definition realpath_id :: "string \<Rightarrow> string option" where
  "realpath_id p = Some p"

text \<open>
  Invariants of a run under a monotone clock. For the inclusion maps: every file on the
  stack has a start time, every file with an end time has a start time, no start time
  lies after the next clock reading, and a file's end time is not before its start time.
\<close>

definition inclusion_inv :: "(nat \<Rightarrow> int) \<Rightarrow> tracker \<Rightarrow> bool" where
  "inclusion_inv clk s =
     ((\<forall>f \<in> set (preprocessing_stack s). contains (preprocess_start s) f) \<and>
      (\<forall>f. contains (preprocess_end s) f \<longrightarrow> contains (preprocess_start s) f) \<and>
      (\<forall>f a. preprocess_start s f = Some a \<longrightarrow> a \<le> clk (ticks s)) \<and>
      (\<forall>f a b. preprocess_start s f = Some a \<and> preprocess_end s f = Some b \<longrightarrow> a \<le> b))"

text \<open>
  For the function records: no end time lies after the next clock reading or after
  \<open>last_function_parsed_ts\<close>, and each record starts after all earlier ones have ended.
\<close>

definition function_inv :: "(nat \<Rightarrow> int) \<Rightarrow> tracker \<Rightarrow> bool" where
  "function_inv clk s =
     ((\<forall>e \<in> set (function_events s).
         ts_end (fn_ev_ts e) \<le> clk (ticks s) \<and> ts_end (fn_ev_ts e) \<le> last_function_parsed_ts s) \<and>
      sorted_wrt (\<lambda>a b. ts_end (fn_ev_ts a) < ts_start (fn_ev_ts b)) (function_events s))"

text \<open>A clock whose every reading is greater than the one before.\<close>

definition strict_clock :: "(nat \<Rightarrow> int) \<Rightarrow> bool" where
  "strict_clock clk = (\<forall>i. clk i < clk (Suc i))"

text \<open>
  For the pass history: no end time lies after the next clock reading, a record's start is
  at most one past its end (not past it at all under a strict clock), each record starts
  after all earlier ones have ended, and the pending pass starts after the whole history.
\<close>

definition stage_inv :: "(nat \<Rightarrow> int) \<Rightarrow> tracker \<Rightarrow> bool" where
  "stage_inv clk s =
     ((\<forall>e \<in> set (pass_events s).
         ts_end (pass_ts e) \<le> clk (ticks s) \<and>
         ts_start (pass_ts e) \<le> ts_end (pass_ts e) + 1 \<and>
         (strict_clock clk \<longrightarrow> ts_start (pass_ts e) \<le> ts_end (pass_ts e))) \<and>
      sorted_wrt (\<lambda>a b. ts_end (pass_ts a) < ts_start (pass_ts b)) (pass_events s) \<and>
      (pass (last_pass s) \<noteq> None \<longrightarrow>
         (\<forall>e \<in> set (pass_events s). ts_end (pass_ts e) < ts_start (pass_ts (last_pass s))) \<and>
         ts_start (pass_ts (last_pass s)) \<le> clk (ticks s) + 1 \<and>
         (strict_clock clk \<longrightarrow> ts_start (pass_ts (last_pass s)) \<le> clk (ticks s))))"

definition span_inv :: "(nat \<Rightarrow> int) \<Rightarrow> tracker \<Rightarrow> bool" where
  "span_inv clk s = (inclusion_inv clk s \<and> function_inv clk s \<and> stage_inv clk s)"

text \<open>
  More sample inputs: a clock that advances 1 ns with every reading, a clock too coarse to
  tell two consecutive readings apart, and a pass.
\<close>

definition clock_1ns :: "nat \<Rightarrow> int" where
  "clock_1ns n = int n + 1"

definition clock_coarse :: "nat \<Rightarrow> int" where
  "clock_coarse n = 1000000 * int (n div 2)"

definition sample_pass :: "string \<Rightarrow> opt_pass" where
  "sample_pass n = \<lparr>pass_name = n, pass_type_of = OPT_GIMPLE_PASS, static_pass_number = 3\<rparr>"

text \<open>The passes handed to \<open>start_opt_pass\<close> by a run, in order, null pointers left out.\<close>

fun started_passes :: "callback list \<Rightarrow> opt_pass list" where
  "started_passes [] = []"
| "started_passes (StartOptPass (Some p) # cs) = p # started_passes cs"
| "started_passes (c # cs) = started_passes cs"

text \<open>The passes of the history followed by the pending pass, if there is one.\<close>

definition pass_history :: "tracker \<Rightarrow> opt_pass option list" where
  "pass_history s =
     map pass (pass_events s) @ (case pass (last_pass s) of None \<Rightarrow> [] | Some p \<Rightarrow> [Some p])"

text \<open>
  A clock whose first reading is at least 3 ns and whose every later reading is at least
  6 ns after the one before.
\<close>

definition spaced_clock :: "(nat \<Rightarrow> int) \<Rightarrow> bool" where
  "spaced_clock clk = (3 \<le> clk 0 \<and> (\<forall>i. clk i + 6 \<le> clk (Suc i)))"

text \<open>
  For the boundary \<open>last_function_parsed_ts\<close> and the function and scope records: no scope
  ends more than 1 ns after the next clock reading; under a clock that starts at 0 or later
  the boundary is at most 3 ns past the next reading, a function record starts at most
  6 ns after its end and a scope record at most 4 ns after its end; under a spaced clock
  the boundary is at least 3 ns before the next reading and no function or scope record
  starts after its end.
\<close>

definition nudge_inv :: "(nat \<Rightarrow> int) \<Rightarrow> tracker \<Rightarrow> bool" where
  "nudge_inv clk s =
     ((\<forall>e \<in> set (scope_events s). ts_end (scope_ev_ts e) \<le> clk (ticks s) + 1) \<and>
      (0 \<le> clk 0 \<longrightarrow>
         last_function_parsed_ts s \<le> clk (ticks s) + 3 \<and>
         (\<forall>e \<in> set (function_events s). ts_start (fn_ev_ts e) \<le> ts_end (fn_ev_ts e) + 6) \<and>
         (\<forall>e \<in> set (scope_events s). ts_start (scope_ev_ts e) \<le> ts_end (scope_ev_ts e) + 4)) \<and>
      (spaced_clock clk \<longrightarrow>
         last_function_parsed_ts s + 3 \<le> clk (ticks s) \<and>
         (\<forall>e \<in> set (function_events s). ts_start (fn_ev_ts e) \<le> ts_end (fn_ev_ts e)) \<and>
         (\<forall>e \<in> set (scope_events s). ts_start (scope_ev_ts e) \<le> ts_end (scope_ev_ts e))))"

text \<open>A clock that starts at 1 ms and advances 1 ms with every reading.\<close>

definition clock_ms :: "nat \<Rightarrow> int" where
  "clock_ms n = 1000000 * int (Suc n)"

text \<open>
  What holds of the recorded spans: a closed inclusion has \<open>end \<ge> start\<close>; a pass record
  has \<open>end \<ge> start - 1\<close>, and \<open>end \<ge> start\<close> under a strict clock; under a clock that
  starts at 0 or later a function record has \<open>end \<ge> start - 6\<close> and a scope record
  \<open>end \<ge> start - 4\<close>, and under a spaced clock both have \<open>end \<ge> start\<close>; in the pass
  history and in the function list, a later record starts strictly after an earlier one
  has ended.
\<close>

definition spans_ordered :: "(nat \<Rightarrow> int) \<Rightarrow> tracker \<Rightarrow> bool" where
  "spans_ordered clk s =
     ((\<forall>f a b. preprocess_start s f = Some a \<and> preprocess_end s f = Some b \<longrightarrow> a \<le> b) \<and>
      (\<forall>e \<in> set (pass_events s). ts_start (pass_ts e) \<le> ts_end (pass_ts e) + 1) \<and>
      (strict_clock clk \<longrightarrow> (\<forall>e \<in> set (pass_events s). ts_start (pass_ts e) \<le> ts_end (pass_ts e))) \<and>
      (0 \<le> clk 0 \<longrightarrow>
         (\<forall>e \<in> set (function_events s). ts_start (fn_ev_ts e) \<le> ts_end (fn_ev_ts e) + 6) \<and>
         (\<forall>e \<in> set (scope_events s). ts_start (scope_ev_ts e) \<le> ts_end (scope_ev_ts e) + 4)) \<and>
      (spaced_clock clk \<longrightarrow>
         (\<forall>e \<in> set (function_events s). ts_start (fn_ev_ts e) \<le> ts_end (fn_ev_ts e)) \<and>
         (\<forall>e \<in> set (scope_events s). ts_start (scope_ev_ts e) \<le> ts_end (scope_ev_ts e))) \<and>
      sorted_wrt (\<lambda>a b. ts_end (pass_ts a) < ts_start (pass_ts b)) (pass_events s) \<and>
      sorted_wrt (\<lambda>a b. ts_end (fn_ev_ts a) < ts_start (fn_ev_ts b)) (function_events s))"

section \<open>Basic facts about the operations\<close>

lemma map_index_present: "m k = Some v \<Longrightarrow> map_index m k = (v, m)"
  by (simp add: map_index_def)

lemma end_preprocess_file_empty:
  "preprocessing_stack s = [] \<Longrightarrow> end_preprocess_file clk s = Inl EmptyStack"
  by (simp add: end_preprocess_file_def ns_from_start_def)

lemma end_preprocess_file_nonempty:
  "preprocessing_stack s = f # rest \<Longrightarrow>
   end_preprocess_file clk s =
     Inr (s\<lparr>ticks := Suc (ticks s),
            preprocess_end := (if contains (preprocess_end s) f then preprocess_end s
                               else (preprocess_end s)(f \<mapsto> clk (ticks s))),
            preprocessing_stack := rest,
            last_function_parsed_ts := clk (ticks s) + 3\<rparr>)"
  by (simp add: end_preprocess_file_def ns_from_start_def Let_def)

lemma end_preprocess_file_succeeds:
  "preprocessing_stack s \<noteq> [] \<Longrightarrow> \<exists>s1. end_preprocess_file clk s = Inr s1"
  by (cases "preprocessing_stack s") (simp_all add: end_preprocess_file_nonempty)

lemma finish_preprocessing_stage_unfold:
  "preprocessing_stack s \<noteq> [] \<Longrightarrow> end_preprocess_file clk s = Inr s1 \<Longrightarrow>
   finish_preprocessing_stage clk s =
     finish_preprocessing_stage clk
       (snd (ns_from_start clk s1)\<lparr>last_function_parsed_ts := fst (ns_from_start clk s1)\<rparr>)"
  by (subst finish_preprocessing_stage.simps) simp

lemma finish_preprocessing_stage_empty:
  "preprocessing_stack s = [] \<Longrightarrow> finish_preprocessing_stage clk s = Inr s"
  by (subst finish_preprocessing_stage.simps) simp

lemma add_event_short: "\<not> long_enough e \<Longrightarrow> add_event pid e out = out"
  by (simp add: add_event_def long_enough_def)

lemma add_event_long:
  "long_enough e \<Longrightarrow>
   add_event pid e out =
     out\<lparr>UID := UID out + 1,
         output_events_list := output_events_list out @ event_pair pid (UID out) e\<rparr>"
  by (simp add: add_event_def long_enough_def event_pair_def Let_def)

lemma add_events_list:
  "add_events pid es out =
     out\<lparr>UID := UID out + int (length (filter long_enough es)),
         output_events_list := output_events_list out @
           concat (map (\<lambda>(k, e). event_pair pid (UID out + int k) e)
                     (enumerate 0 (filter long_enough es)))\<rparr>"
proof (induction es arbitrary: out)
  case Nil
  show ?case by simp
next
  case (Cons e es)
  show ?case
  proof (cases "long_enough e")
    case True
    have shift: "map (\<lambda>(k, e). event_pair pid (UID out + 1 + int k) e) (enumerate 0 xs)
        = map (\<lambda>(k, e). event_pair pid (UID out + int k) e) (enumerate (Suc 0) xs)" for xs
      by (simp add: enumerate_Suc_eq split_def add.commute add.left_commute)
    show ?thesis
      by (simp add: Cons.IH add_event_long True shift)
  next
    case False
    then show ?thesis by (simp add: Cons.IH add_event_short)
  qed
qed

lemma end_parse_function_scope_none:
  "ff_scope_name f = None \<Longrightarrow> scope_events (end_parse_function clk f s) = scope_events s"
  by (simp add: end_parse_function_def ns_from_start_def Let_def)

lemma end_parse_function_scope_new:
  "ff_scope_name f = Some ns \<Longrightarrow>
   \<not> (scope_events s \<noteq> [] \<and> did_last_function_have_scope s
        \<and> scope_ev_name (last (scope_events s)) = ns) \<Longrightarrow>
   scope_events (end_parse_function clk f s) = scope_events s @
     [\<lparr>scope_ev_name = ns, scope_ev_type = ff_scope_type f,
       scope_ev_ts = \<lparr>ts_start = last_function_parsed_ts s + 3 - 1, ts_end = clk (ticks s) + 1\<rparr>\<rparr>]"
  by (auto simp: end_parse_function_def ns_from_start_def Let_def)

lemma end_parse_function_scope_extend:
  "ff_scope_name f = Some ns \<Longrightarrow> scope_events s \<noteq> [] \<Longrightarrow>
   did_last_function_have_scope s \<Longrightarrow> scope_ev_name (last (scope_events s)) = ns \<Longrightarrow>
   scope_events (end_parse_function clk f s) = butlast (scope_events s) @
     [(last (scope_events s))
        \<lparr>scope_ev_ts := (scope_ev_ts (last (scope_events s)))\<lparr>ts_end := clk (ticks s) + 1\<rparr>\<rparr>]"
  by (simp add: end_parse_function_def ns_from_start_def Let_def)

lemma end_parse_function_fields:
  "ticks (end_parse_function clk info s) = Suc (ticks s)"
  "preprocess_start (end_parse_function clk info s) = preprocess_start s"
  "preprocess_end (end_parse_function clk info s) = preprocess_end s"
  "preprocessing_stack (end_parse_function clk info s) = preprocessing_stack s"
  "last_function_parsed_ts (end_parse_function clk info s) = clk (ticks s)"
  "last_pass (end_parse_function clk info s) = last_pass s"
  "pass_events (end_parse_function clk info s) = pass_events s"
  "function_events (end_parse_function clk info s) = function_events s @
     [\<lparr>fn_ev_name = ff_name info, fn_ev_file_name = ff_file_name info,
       fn_ev_ts = \<lparr>ts_start = last_function_parsed_ts s + 3, ts_end = clk (ticks s)\<rparr>\<rparr>]"
  "did_last_function_have_scope (end_parse_function clk info s) = (ff_scope_name info \<noteq> None)"
  by (simp_all add: end_parse_function_def ns_from_start_def Let_def split: option.split)

lemma start_preprocess_file_skip:
  "file_name = None \<or> file_name = Some ''<command-line>'' \<Longrightarrow>
   start_preprocess_file clk realpath file_name pfile s = Inr (s\<lparr>ticks := Suc (ticks s)\<rparr>)"
  by (auto simp: start_preprocess_file_def ns_from_start_def)

lemma register_include_location_frame:
  "register_include_location f d s = Inr s' \<Longrightarrow>
   ticks s' = ticks s \<and> preprocess_start s' = preprocess_start s \<and>
   preprocess_end s' = preprocess_end s \<and> preprocessing_stack s' = preprocessing_stack s \<and>
   last_function_parsed_ts s' = last_function_parsed_ts s \<and> last_pass s' = last_pass s \<and>
   pass_events s' = pass_events s \<and> scope_events s' = scope_events s \<and>
   function_events s' = function_events s \<and>
   did_last_function_have_scope s' = did_last_function_have_scope s"
  by (auto simp: register_include_location_def Let_def split: if_splits sum.splits)

lemma start_preprocess_file_tracked:
  assumes "start_preprocess_file clk realpath (Some fname) pfile s = Inr s'"
    and "fname \<noteq> ''<command-line>''"
  shows "\<exists>f. f = (if contains (preprocess_start s) fname \<and> \<not> contains (preprocess_end s) fname
               then CIRCULAR_POISON_VALUE else fname) \<and>
     ticks s' = Suc (ticks s) \<and>
     preprocess_start s' = (if contains (preprocess_start s) f then preprocess_start s
                            else (preprocess_start s)(f \<mapsto> clk (ticks s))) \<and>
     preprocess_end s' = preprocess_end s \<and>
     preprocessing_stack s' = f # preprocessing_stack s \<and>
     last_function_parsed_ts s' = last_function_parsed_ts s \<and> last_pass s' = last_pass s \<and>
     pass_events s' = pass_events s \<and> scope_events s' = scope_events s \<and>
     function_events s' = function_events s \<and>
     did_last_function_have_scope s' = did_last_function_have_scope s"
proof -
  define f where "f = (if contains (preprocess_start s) fname \<and> \<not> contains (preprocess_end s) fname
               then CIRCULAR_POISON_VALUE else fname)"
  define s2 where "s2 = s\<lparr>ticks := Suc (ticks s),
      preprocess_start := (if contains (preprocess_start s) f then preprocess_start s
                            else (preprocess_start s)(f \<mapsto> clk (ticks s))),
      preprocessing_stack := f # preprocessing_stack s\<rparr>"
  have "s' = s2 \<or> (\<exists>rf rd. register_include_location rf rd s2 = Inr s')"
    using assms
    by (auto simp: start_preprocess_file_def ns_from_start_def Let_def f_def s2_def
          split: option.splits if_splits)
  then show ?thesis
    using register_include_location_frame [of _ _ s2 s']
    by (auto simp: s2_def f_def)
qed

lemma finish_preprocessing_stage_preserves:
  "(\<And>s s'. P s \<Longrightarrow> end_preprocess_file clk s = Inr s' \<Longrightarrow> P s') \<Longrightarrow>
   (\<And>s. P s \<Longrightarrow>
        P (snd (ns_from_start clk s)\<lparr>last_function_parsed_ts := fst (ns_from_start clk s)\<rparr>)) \<Longrightarrow>
   P s \<Longrightarrow> finish_preprocessing_stage clk s = Inr s' \<Longrightarrow> P s'"
proof (induction clk s rule: finish_preprocessing_stage.induct)
  case (1 clk s)
  note closing = "1.prems"(1) and reading = "1.prems"(2)
  show ?case
  proof (cases "preprocessing_stack s = []")
    case True
    with "1.prems"(3,4) show ?thesis by (simp add: finish_preprocessing_stage_empty)
  next
    case False
    then obtain s1 where s1: "end_preprocess_file clk s = Inr s1"
      using end_preprocess_file_succeeds by blast
    let ?s2 = "snd (ns_from_start clk s1)\<lparr>last_function_parsed_ts := fst (ns_from_start clk s1)\<rparr>"
    have "P s1" by (rule closing [OF "1.prems"(3) s1])
    then have p2: "P ?s2" by (rule reading)
    have f2: "finish_preprocessing_stage clk ?s2 = Inr s'"
      using "1.prems"(4) finish_preprocessing_stage_unfold [OF False s1] by simp
    show ?thesis
      by (rule "1.IH" [OF False s1 closing reading p2 f2])
  qed
qed

lemma finish_preprocessing_stage_total:
  "\<exists>s'. finish_preprocessing_stage clk s = Inr s' \<and> preprocessing_stack s' = []"
proof (induction clk s rule: finish_preprocessing_stage.induct)
  case (1 clk s)
  show ?case
  proof (cases "preprocessing_stack s = []")
    case True
    then show ?thesis by (simp add: finish_preprocessing_stage_empty)
  next
    case False
    then obtain s1 where s1: "end_preprocess_file clk s = Inr s1"
      using end_preprocess_file_succeeds by blast
    from "1.IH" [OF False s1] show ?thesis
      by (simp only: finish_preprocessing_stage_unfold [OF False s1])
  qed
qed

lemma run_preserves:
  "(\<And>c s s'. P s \<Longrightarrow> step clk realpath c s = Inr s' \<Longrightarrow> P s') \<Longrightarrow>
   P s \<Longrightarrow> run clk realpath cbs s = Inr s' \<Longrightarrow> P s'"
proof (induction cbs arbitrary: s)
  case Nil
  then show ?case by simp
next
  case (Cons c cbs)
  from Cons.prems(3) obtain s1 where s1: "step clk realpath c s = Inr s1"
    and rest: "run clk realpath cbs s1 = Inr s'"
    by (cases "step clk realpath c s") simp_all
  have p1: "P s1" by (rule Cons.prems(1) [OF Cons.prems(2) s1])
  show ?case
  proof (rule Cons.IH)
    show "\<And>c s s'. P s \<Longrightarrow> step clk realpath c s = Inr s' \<Longrightarrow> P s'"
      by (rule Cons.prems(1))
    show "P s1" by (rule p1)
    show "run clk realpath cbs s1 = Inr s'" by (rule rest)
  qed
qed

lemma end_preprocess_file_fields:
  assumes "end_preprocess_file clk s = Inr s'"
  shows "\<exists>f rest. preprocessing_stack s = f # rest \<and>
     ticks s' = Suc (ticks s) \<and>
     preprocess_start s' = preprocess_start s \<and>
     preprocess_end s' = (if contains (preprocess_end s) f then preprocess_end s
                          else (preprocess_end s)(f \<mapsto> clk (ticks s))) \<and>
     preprocessing_stack s' = rest \<and>
     last_function_parsed_ts s' = clk (ticks s) + 3 \<and> last_pass s' = last_pass s \<and>
     pass_events s' = pass_events s \<and> scope_events s' = scope_events s \<and>
     function_events s' = function_events s \<and>
     did_last_function_have_scope s' = did_last_function_have_scope s"
proof (cases "preprocessing_stack s")
  case Nil
  with assms show ?thesis by (simp add: end_preprocess_file_empty)
next
  case (Cons f rest)
  from assms have "s' = s\<lparr>ticks := Suc (ticks s),
            preprocess_end := (if contains (preprocess_end s) f then preprocess_end s
                               else (preprocess_end s)(f \<mapsto> clk (ticks s))),
            preprocessing_stack := rest,
            last_function_parsed_ts := clk (ticks s) + 3\<rparr>"
    by (simp only: end_preprocess_file_nonempty [OF Cons] sum.inject)
  then show ?thesis using Cons by simp
qed

lemma reading_fields:
  "ticks (snd (ns_from_start clk s)\<lparr>last_function_parsed_ts := fst (ns_from_start clk s)\<rparr>) = Suc (ticks s)"
  "last_function_parsed_ts (snd (ns_from_start clk s)\<lparr>last_function_parsed_ts := fst (ns_from_start clk s)\<rparr>) = clk (ticks s)"
  "preprocess_start (snd (ns_from_start clk s)\<lparr>last_function_parsed_ts := fst (ns_from_start clk s)\<rparr>) = preprocess_start s"
  "preprocess_end (snd (ns_from_start clk s)\<lparr>last_function_parsed_ts := fst (ns_from_start clk s)\<rparr>) = preprocess_end s"
  "preprocessing_stack (snd (ns_from_start clk s)\<lparr>last_function_parsed_ts := fst (ns_from_start clk s)\<rparr>) = preprocessing_stack s"
  "last_pass (snd (ns_from_start clk s)\<lparr>last_function_parsed_ts := fst (ns_from_start clk s)\<rparr>) = last_pass s"
  "pass_events (snd (ns_from_start clk s)\<lparr>last_function_parsed_ts := fst (ns_from_start clk s)\<rparr>) = pass_events s"
  "function_events (snd (ns_from_start clk s)\<lparr>last_function_parsed_ts := fst (ns_from_start clk s)\<rparr>) = function_events s"
  "scope_events (snd (ns_from_start clk s)\<lparr>last_function_parsed_ts := fst (ns_from_start clk s)\<rparr>) = scope_events s"
  by (simp_all add: ns_from_start_def)

lemma start_opt_pass_fields:
  "ticks (start_opt_pass clk p s) = Suc (ticks s)"
  "preprocess_start (start_opt_pass clk p s) = preprocess_start s"
  "preprocess_end (start_opt_pass clk p s) = preprocess_end s"
  "preprocessing_stack (start_opt_pass clk p s) = preprocessing_stack s"
  "last_function_parsed_ts (start_opt_pass clk p s) = last_function_parsed_ts s"
  "function_events (start_opt_pass clk p s) = function_events s"
  "scope_events (start_opt_pass clk p s) = scope_events s"
  "last_pass (start_opt_pass clk p s) =
     \<lparr>pass = p, pass_ts = \<lparr>ts_start = clk (ticks s) + 1, ts_end = clk (ticks s)\<rparr>\<rparr>"
  "pass_events (start_opt_pass clk p s) =
     (if pass (last_pass s) \<noteq> None
      then pass_events s @
             [\<lparr>pass = pass (last_pass s),
               pass_ts = \<lparr>ts_start = ts_start (pass_ts (last_pass s)), ts_end = clk (ticks s)\<rparr>\<rparr>]
      else pass_events s)"
  by (simp_all add: start_opt_pass_def ns_from_start_def Let_def)


lemma open_files_cong:
  "open_files_on_stack s \<Longrightarrow>
   preprocess_start s' = preprocess_start s \<Longrightarrow> preprocess_end s' = preprocess_end s \<Longrightarrow>
   preprocessing_stack s' = preprocessing_stack s \<Longrightarrow>
   open_files_on_stack s'"
  by (simp add: open_files_on_stack_def)

lemma open_files_end:
  assumes "open_files_on_stack s" and "end_preprocess_file clk s = Inr s'"
  shows "open_files_on_stack s'"
proof -
  from end_preprocess_file_fields [OF assms(2)] obtain f rest where
    stack: "preprocessing_stack s = f # rest" "preprocessing_stack s' = rest"
    and st: "preprocess_start s' = preprocess_start s"
    and en: "preprocess_end s' = (if contains (preprocess_end s) f then preprocess_end s
                          else (preprocess_end s)(f \<mapsto> clk (ticks s)))"
    by blast
  show ?thesis
    unfolding open_files_on_stack_def
  proof (intro allI impI)
    fix g assume "contains (preprocess_start s') g"
    with assms(1) st stack have "contains (preprocess_end s) g \<or> g = f \<or> g \<in> set rest"
      by (auto simp: open_files_on_stack_def)
    then show "contains (preprocess_end s') g \<or> g \<in> set (preprocessing_stack s')"
      by (auto simp: en stack contains_def)
  qed
qed

lemma open_files_start:
  assumes "open_files_on_stack s"
    and "start_preprocess_file clk realpath file_name pfile s = Inr s'"
  shows "open_files_on_stack s'"
proof (cases "file_name = None \<or> file_name = Some ''<command-line>''")
  case True
  from assms(2) have "s' = s\<lparr>ticks := Suc (ticks s)\<rparr>"
    by (simp only: start_preprocess_file_skip [OF True] sum.inject)
  with assms(1) show ?thesis by (simp add: open_files_on_stack_def)
next
  case False
  then obtain fname where fn: "file_name = Some fname" "fname \<noteq> ''<command-line>''" by auto
  from start_preprocess_file_tracked [OF assms(2) [unfolded fn(1)] fn(2)] obtain f where
    st: "preprocess_start s' = (if contains (preprocess_start s) f then preprocess_start s
                            else (preprocess_start s)(f \<mapsto> clk (ticks s)))"
    and en: "preprocess_end s' = preprocess_end s"
    and stack: "preprocessing_stack s' = f # preprocessing_stack s"
    by blast
  show ?thesis
    unfolding open_files_on_stack_def
  proof (intro allI impI)
    fix g assume "contains (preprocess_start s') g"
    then have "contains (preprocess_start s) g \<or> g = f"
      by (auto simp: st contains_def split: if_splits)
    with assms(1) show "contains (preprocess_end s') g \<or> g \<in> set (preprocessing_stack s')"
      by (auto simp: en stack open_files_on_stack_def)
  qed
qed

lemma open_files_step:
  assumes "open_files_on_stack s" and "step clk realpath c s = Inr s'"
  shows "open_files_on_stack s'"
proof (cases c)
  case (StartPreprocessFile file_name pfile)
  with assms show ?thesis using open_files_start by simp
next
  case EndPreprocessFile
  with assms show ?thesis using open_files_end by simp
next
  case FinishPreprocessingStage
  with assms(2) have fin: "finish_preprocessing_stage clk s = Inr s'" by simp
  show ?thesis
  proof (rule finish_preprocessing_stage_preserves [where P = open_files_on_stack, OF _ _ assms(1) fin])
    show "\<And>s s'. open_files_on_stack s \<Longrightarrow> end_preprocess_file clk s = Inr s' \<Longrightarrow> open_files_on_stack s'"
      by (rule open_files_end)
    show "\<And>s. open_files_on_stack s \<Longrightarrow> open_files_on_stack
          (snd (ns_from_start clk s)\<lparr>last_function_parsed_ts := fst (ns_from_start clk s)\<rparr>)"
      by (erule open_files_cong) (simp_all add: reading_fields)
  qed
next
  case (StartOptPass p)
  with assms(2) have "s' = start_opt_pass clk p s" by simp
  then show ?thesis
    by (intro open_files_cong [OF assms(1)]) (simp_all add: start_opt_pass_fields)
next
  case (EndParseFunction info)
  with assms(2) have "s' = end_parse_function clk info s" by simp
  then show ?thesis
    by (intro open_files_cong [OF assms(1)]) (simp_all add: end_parse_function_fields)
qed

lemma open_files_init: "open_files_on_stack init_tracker"
  by (simp add: open_files_on_stack_def init_tracker_def contains_def)

lemma open_files_run:
  "run clk realpath cbs init_tracker = Inr s \<Longrightarrow> open_files_on_stack s"
  by (rule run_preserves [where P = open_files_on_stack, OF open_files_step open_files_init])

lemma normalized_file_name_state: "snd (normalized_file_name file_name s) = s"
  by (cases "normalized_files_map s file_name")
     (simp_all add: normalized_file_name_def contains_def map_index_present)

lemma write_preprocessing_loop_total:
  "(\<forall>(f, a) \<in> set items. f \<noteq> CIRCULAR_POISON_VALUE \<longrightarrow> contains (preprocess_end s) f) \<Longrightarrow>
   \<exists>out'. write_preprocessing_loop pid items s out = Inr (s, out')"
proof (induction items arbitrary: out)
  case Nil
  show ?case by simp
next
  case (Cons item items)
  obtain f a where item: "item = (f, a)" by (cases item)
  show ?case
  proof (cases "f = CIRCULAR_POISON_VALUE")
    case True
    with Cons item show ?thesis by simp
  next
    case False
    with Cons.prems item obtain b where b: "preprocess_end s f = Some b"
      by (auto simp: contains_def)
    obtain nm where nm: "normalized_file_name f s = (nm, s)"
      using normalized_file_name_state [of f s] by (cases "normalized_file_name f s") simp
    from Cons.prems have "\<forall>(f, a) \<in> set items. f \<noteq> CIRCULAR_POISON_VALUE \<longrightarrow> contains (preprocess_end s) f"
      by simp
    from Cons.IH [OF this] show ?thesis
      by (simp add: item False b nm)
  qed
qed

lemma enumerates_member:
  "enumerates items m \<Longrightarrow> (k, v) \<in> set items \<Longrightarrow> m k = Some v"
  by (auto simp: enumerates_def)

lemma finish_keeps_preprocess_start:
  "finish_preprocessing_stage clk s = Inr s' \<Longrightarrow> preprocess_start s' = preprocess_start s"
proof (rule finish_preprocessing_stage_preserves
         [where P = "\<lambda>t. preprocess_start t = preprocess_start s" and s = s and clk = clk])
  show "\<And>t t'. preprocess_start t = preprocess_start s \<Longrightarrow> end_preprocess_file clk t = Inr t' \<Longrightarrow>
          preprocess_start t' = preprocess_start s"
    using end_preprocess_file_fields by fastforce
  show "\<And>t. preprocess_start t = preprocess_start s \<Longrightarrow>
     preprocess_start (snd (ns_from_start clk t)\<lparr>last_function_parsed_ts := fst (ns_from_start clk t)\<rparr>) = preprocess_start s"
    by (simp add: reading_fields)
qed simp_all

lemma enumerates_two:
  assumes "enumerates items (Map.empty(a \<mapsto> u, b \<mapsto> v))" and "a \<noteq> b"
  shows "items = [(a, u), (b, v)] \<or> items = [(b, v), (a, u)]"
proof -
  have dk: "distinct (map fst items)" and m: "map_of items = Map.empty(a \<mapsto> u, b \<mapsto> v)"
    using assms(1) by (simp_all add: enumerates_def)
  have d: "distinct items" using dk by (rule distinct_map [THEN iffD1, THEN conjunct1])
  have sub: "p \<in> {(a, u), (b, v)}" if "p \<in> set items" for p
  proof -
    obtain k w where p: "p = (k, w)" by (cases p)
    with that dk have "map_of items k = Some w" by simp
    with m p show ?thesis by (auto split: if_splits)
  qed
  have "map_of items a = Some u" "map_of items b = Some v"
    using assms(2) by (simp_all add: m)
  then have sup: "(a, u) \<in> set items" "(b, v) \<in> set items"
    by (auto dest: map_of_SomeD)
  from sub sup have s: "set items = {(a, u), (b, v)}" by auto
  have "card (set items) = 2" using assms(2) by (simp add: s)
  with d have "length items = 2" by (simp add: distinct_card)
  then obtain p q where pq: "items = [p, q]"
    by (auto simp: length_Suc_conv numeral_2_eq_2)
  with s d show ?thesis by (auto simp: doubleton_eq_iff)
qed

lemma monotone_clock_Suc: "monotone_clock clk \<Longrightarrow> clk n \<le> clk (Suc n)"
  by (simp add: monotone_clock_def)

lemma inclusion_inv_tick:
  assumes "monotone_clock clk" and "inclusion_inv clk s" and "ticks s' = Suc (ticks s)"
    and "preprocess_start s' = preprocess_start s" and "preprocess_end s' = preprocess_end s"
    and "preprocessing_stack s' = preprocessing_stack s"
  shows "inclusion_inv clk s'"
proof -
  have "a \<le> clk (ticks s')" if "preprocess_start s f = Some a" for f a
  proof -
    from that assms(2) have "a \<le> clk (ticks s)" by (auto simp: inclusion_inv_def)
    also have "\<dots> \<le> clk (ticks s')" using assms(1,3) by (simp add: monotone_clock_Suc)
    finally show ?thesis .
  qed
  with assms(2) show ?thesis
    unfolding inclusion_inv_def assms(4,5,6) by blast
qed

lemma function_inv_boundary:
  assumes "monotone_clock clk" and "function_inv clk s" and "ticks s' = Suc (ticks s)"
    and "function_events s' = function_events s"
    and "last_function_parsed_ts s' = last_function_parsed_ts s
           \<or> clk (ticks s) \<le> last_function_parsed_ts s'"
  shows "function_inv clk s'"
proof -
  have "ts_end (fn_ev_ts e) \<le> clk (ticks s') \<and> ts_end (fn_ev_ts e) \<le> last_function_parsed_ts s'"
    if "e \<in> set (function_events s)" for e
  proof -
    from that assms(2) have a: "ts_end (fn_ev_ts e) \<le> clk (ticks s)"
      and b: "ts_end (fn_ev_ts e) \<le> last_function_parsed_ts s"
      by (auto simp: function_inv_def)
    have "clk (ticks s) \<le> clk (ticks s')" using assms(1,3) by (simp add: monotone_clock_Suc)
    with a b assms(5) show ?thesis by auto
  qed
  with assms(2) show ?thesis
    unfolding function_inv_def assms(4) by blast
qed

lemma stage_inv_tick:
  assumes "monotone_clock clk" and "stage_inv clk s" and "ticks s' = Suc (ticks s)"
    and "pass_events s' = pass_events s" and "last_pass s' = last_pass s"
  shows "stage_inv clk s'"
proof -
  have le: "clk (ticks s) \<le> clk (ticks s')" using assms(1,3) by (simp add: monotone_clock_Suc)
  have a: "ts_end (pass_ts e) \<le> clk (ticks s')" if "e \<in> set (pass_events s)" for e
    using that assms(2) le by (fastforce simp: stage_inv_def)
  have b: "ts_start (pass_ts (last_pass s)) \<le> clk (ticks s') + 1"
    if "pass (last_pass s) \<noteq> None"
    using that assms(2) le by (fastforce simp: stage_inv_def)
  have c: "ts_start (pass_ts (last_pass s)) \<le> clk (ticks s')"
    if "pass (last_pass s) \<noteq> None" "strict_clock clk"
    using that assms(2) le by (fastforce simp: stage_inv_def)
  from assms(2) a b c show ?thesis
    unfolding stage_inv_def assms(4,5) by blast
qed

lemma inclusion_inv_start:
  assumes mono: "monotone_clock clk" and inv: "inclusion_inv clk s"
    and "start_preprocess_file clk realpath file_name pfile s = Inr s'"
  shows "inclusion_inv clk s'"
proof (cases "file_name = None \<or> file_name = Some ''<command-line>''")
  case True
  from assms(3) have "s' = s\<lparr>ticks := Suc (ticks s)\<rparr>"
    by (simp only: start_preprocess_file_skip [OF True] sum.inject)
  then show ?thesis by (intro inclusion_inv_tick [OF mono inv]) simp_all
next
  case False
  then obtain fname where fn: "file_name = Some fname" "fname \<noteq> ''<command-line>''" by auto
  from start_preprocess_file_tracked [OF assms(3) [unfolded fn(1)] fn(2)] obtain f where
    tk: "ticks s' = Suc (ticks s)"
    and st: "preprocess_start s' = (if contains (preprocess_start s) f then preprocess_start s
                            else (preprocess_start s)(f \<mapsto> clk (ticks s)))"
    and en: "preprocess_end s' = preprocess_end s"
    and stack: "preprocessing_stack s' = f # preprocessing_stack s"
    by blast
  have le: "clk (ticks s) \<le> clk (ticks s')" using mono tk by (simp add: monotone_clock_Suc)
  from inv have i1: "\<And>g. g \<in> set (preprocessing_stack s) \<Longrightarrow> contains (preprocess_start s) g"
    and i2: "\<And>g. contains (preprocess_end s) g \<Longrightarrow> contains (preprocess_start s) g"
    and i3: "\<And>g a. preprocess_start s g = Some a \<Longrightarrow> a \<le> clk (ticks s)"
    and i4: "\<And>g a b. preprocess_start s g = Some a \<Longrightarrow> preprocess_end s g = Some b \<Longrightarrow> a \<le> b"
    unfolding inclusion_inv_def by blast+
  have keep: "contains (preprocess_start s') g" if "contains (preprocess_start s) g" for g
    using that by (simp add: st contains_def)
  have new: "contains (preprocess_start s') f" by (simp add: st contains_def)
  have old: "preprocess_start s g = Some a \<or> (g = f \<and> a = clk (ticks s) \<and> \<not> contains (preprocess_start s) f)"
    if "preprocess_start s' g = Some a" for g a
    using that by (auto simp: st split: if_splits)
  show ?thesis
    unfolding inclusion_inv_def
  proof (intro conjI ballI allI impI)
    fix g assume "g \<in> set (preprocessing_stack s')"
    then show "contains (preprocess_start s') g" using i1 keep new by (auto simp: stack)
  next
    fix g assume "contains (preprocess_end s') g"
    then show "contains (preprocess_start s') g" using i2 keep by (simp add: en)
  next
    fix g a assume "preprocess_start s' g = Some a"
    from old [OF this] show "a \<le> clk (ticks s')" using i3 le by fastforce
  next
    fix g a b assume "preprocess_start s' g = Some a \<and> preprocess_end s' g = Some b"
    then have a: "preprocess_start s' g = Some a" and b: "preprocess_end s g = Some b"
      by (simp_all add: en)
    from old [OF a] show "a \<le> b"
    proof
      assume "preprocess_start s g = Some a" then show ?thesis using b by (rule i4)
    next
      assume "g = f \<and> a = clk (ticks s) \<and> \<not> contains (preprocess_start s) f"
      moreover have "contains (preprocess_start s) g" using b i2 by (simp add: contains_def)
      ultimately show ?thesis by simp
    qed
  qed
qed

lemma inclusion_inv_end:
  assumes mono: "monotone_clock clk" and inv: "inclusion_inv clk s"
    and "end_preprocess_file clk s = Inr s'"
  shows "inclusion_inv clk s'"
proof -
  from end_preprocess_file_fields [OF assms(3)] obtain f rest where
    stack: "preprocessing_stack s = f # rest" "preprocessing_stack s' = rest"
    and tk: "ticks s' = Suc (ticks s)"
    and st: "preprocess_start s' = preprocess_start s"
    and en: "preprocess_end s' = (if contains (preprocess_end s) f then preprocess_end s
                          else (preprocess_end s)(f \<mapsto> clk (ticks s)))"
    by blast
  have le: "clk (ticks s) \<le> clk (ticks s')" using mono tk by (simp add: monotone_clock_Suc)
  from inv have i1: "\<And>g. g \<in> set (preprocessing_stack s) \<Longrightarrow> contains (preprocess_start s) g"
    and i2: "\<And>g. contains (preprocess_end s) g \<Longrightarrow> contains (preprocess_start s) g"
    and i3: "\<And>g a. preprocess_start s g = Some a \<Longrightarrow> a \<le> clk (ticks s)"
    and i4: "\<And>g a b. preprocess_start s g = Some a \<Longrightarrow> preprocess_end s g = Some b \<Longrightarrow> a \<le> b"
    unfolding inclusion_inv_def by blast+
  have old: "preprocess_end s g = Some b \<or> (g = f \<and> b = clk (ticks s))"
    if "preprocess_end s' g = Some b" for g b
    using that by (auto simp: en split: if_splits)
  have top: "contains (preprocess_start s) f" using i1 by (simp add: stack)
  show ?thesis
    unfolding inclusion_inv_def
  proof (intro conjI ballI allI impI)
    fix g assume "g \<in> set (preprocessing_stack s')"
    then show "contains (preprocess_start s') g" using i1 by (simp add: stack st)
  next
    fix g assume "contains (preprocess_end s') g"
    then obtain b where "preprocess_end s' g = Some b" by (auto simp: contains_def)
    from old [OF this] show "contains (preprocess_start s') g"
      using i2 top by (auto simp: st contains_def)
  next
    fix g a assume "preprocess_start s' g = Some a"
    then show "a \<le> clk (ticks s')" using i3 [of g a] le by (simp add: st)
  next
    fix g a b assume "preprocess_start s' g = Some a \<and> preprocess_end s' g = Some b"
    then have a: "preprocess_start s g = Some a" and b: "preprocess_end s' g = Some b"
      by (simp_all add: st)
    from old [OF b] show "a \<le> b" using i4 [OF a] i3 [OF a] by auto
  qed
qed

lemma function_inv_parse:
  assumes mono: "monotone_clock clk" and inv: "function_inv clk s"
  shows "function_inv clk (end_parse_function clk info s)"
proof -
  let ?s' = "end_parse_function clk info s"
  let ?new = "\<lparr>fn_ev_name = ff_name info, fn_ev_file_name = ff_file_name info,
       fn_ev_ts = \<lparr>ts_start = last_function_parsed_ts s + 3, ts_end = clk (ticks s)\<rparr>\<rparr>"
  have fe: "function_events ?s' = function_events s @ [?new]"
    and tk: "ticks ?s' = Suc (ticks s)"
    and lt: "last_function_parsed_ts ?s' = clk (ticks s)"
    by (simp_all add: end_parse_function_fields)
  have le: "clk (ticks s) \<le> clk (Suc (ticks s))" using mono by (rule monotone_clock_Suc)
  from inv have i1: "\<And>e. e \<in> set (function_events s) \<Longrightarrow> ts_end (fn_ev_ts e) \<le> clk (ticks s)"
    and i2: "\<And>e. e \<in> set (function_events s) \<Longrightarrow> ts_end (fn_ev_ts e) \<le> last_function_parsed_ts s"
    and i3: "sorted_wrt (\<lambda>a b. ts_end (fn_ev_ts a) < ts_start (fn_ev_ts b)) (function_events s)"
    unfolding function_inv_def by blast+
  show ?thesis
    unfolding function_inv_def fe tk lt
  proof (intro conjI ballI)
    fix e assume "e \<in> set (function_events s @ [?new])"
    then have "e \<in> set (function_events s) \<or> e = ?new" by auto
    then show "ts_end (fn_ev_ts e) \<le> clk (Suc (ticks s))" using i1 le by fastforce
  next
    fix e assume "e \<in> set (function_events s @ [?new])"
    then have "e \<in> set (function_events s) \<or> e = ?new" by auto
    then show "ts_end (fn_ev_ts e) \<le> clk (ticks s)" using i1 by fastforce
  next
    have "ts_end (fn_ev_ts e) < ts_start (fn_ev_ts ?new)" if "e \<in> set (function_events s)" for e
      using i2 [OF that] by simp
    with i3 show "sorted_wrt (\<lambda>a b. ts_end (fn_ev_ts a) < ts_start (fn_ev_ts b))
            (function_events s @ [?new])"
      by (simp add: sorted_wrt_append)
  qed
qed

lemma stage_inv_start:
  assumes mono: "monotone_clock clk" and inv: "stage_inv clk s"
  shows "stage_inv clk (start_opt_pass clk p s)"
proof -
  let ?s' = "start_opt_pass clk p s"
  let ?closed = "\<lparr>pass = pass (last_pass s),
       pass_ts = \<lparr>ts_start = ts_start (pass_ts (last_pass s)), ts_end = clk (ticks s)\<rparr>\<rparr>"
  have tk: "ticks ?s' = Suc (ticks s)"
    and lp: "last_pass ?s' = \<lparr>pass = p, pass_ts = \<lparr>ts_start = clk (ticks s) + 1, ts_end = clk (ticks s)\<rparr>\<rparr>"
    and pe: "pass_events ?s' =
       (if pass (last_pass s) \<noteq> None then pass_events s @ [?closed] else pass_events s)"
    by (simp_all add: start_opt_pass_fields)
  have le: "clk (ticks s) \<le> clk (Suc (ticks s))" using mono by (rule monotone_clock_Suc)
  have lt: "clk (ticks s) < clk (Suc (ticks s))" if "strict_clock clk"
    using that by (simp add: strict_clock_def)
  from inv have i1: "\<And>e. e \<in> set (pass_events s) \<Longrightarrow> ts_end (pass_ts e) \<le> clk (ticks s)"
    and i1b: "\<And>e. e \<in> set (pass_events s) \<Longrightarrow> ts_start (pass_ts e) \<le> ts_end (pass_ts e) + 1"
    and i1c: "\<And>e. e \<in> set (pass_events s) \<Longrightarrow> strict_clock clk \<Longrightarrow>
                 ts_start (pass_ts e) \<le> ts_end (pass_ts e)"
    and i2: "sorted_wrt (\<lambda>a b. ts_end (pass_ts a) < ts_start (pass_ts b)) (pass_events s)"
    and i3: "\<And>e. pass (last_pass s) \<noteq> None \<Longrightarrow> e \<in> set (pass_events s) \<Longrightarrow>
                 ts_end (pass_ts e) < ts_start (pass_ts (last_pass s))"
    and i3b: "pass (last_pass s) \<noteq> None \<Longrightarrow> ts_start (pass_ts (last_pass s)) \<le> clk (ticks s) + 1"
    and i3c: "pass (last_pass s) \<noteq> None \<Longrightarrow> strict_clock clk \<Longrightarrow>
                 ts_start (pass_ts (last_pass s)) \<le> clk (ticks s)"
    unfolding stage_inv_def by blast+
  have mem: "e \<in> set (pass_events s) \<or> (pass (last_pass s) \<noteq> None \<and> e = ?closed)"
    if "e \<in> set (pass_events ?s')" for e
    using that by (auto simp: pe split: if_splits)
  have e1: "ts_end (pass_ts e) \<le> clk (ticks s)" if "e \<in> set (pass_events ?s')" for e
    using mem [OF that] i1 by fastforce
  have e2: "ts_start (pass_ts e) \<le> ts_end (pass_ts e) + 1" if "e \<in> set (pass_events ?s')" for e
    using mem [OF that] i1b i3b by fastforce
  have e3: "ts_start (pass_ts e) \<le> ts_end (pass_ts e)"
    if "e \<in> set (pass_events ?s')" "strict_clock clk" for e
    using mem [OF that(1)] i1c [OF _ that(2)] i3c [OF _ that(2)] by fastforce
  have srt: "sorted_wrt (\<lambda>a b. ts_end (pass_ts a) < ts_start (pass_ts b)) (pass_events ?s')"
  proof (cases "pass (last_pass s) \<noteq> None")
    case True
    have "ts_end (pass_ts e) < ts_start (pass_ts ?closed)" if "e \<in> set (pass_events s)" for e
      using i3 [OF True that] by simp
    with i2 True show ?thesis by (simp add: pe sorted_wrt_append)
  next
    case False
    with i2 show ?thesis by (simp add: pe)
  qed
  show ?thesis
    unfolding stage_inv_def
  proof (intro conjI ballI impI)
    fix e assume "e \<in> set (pass_events ?s')"
    from e1 [OF this] show "ts_end (pass_ts e) \<le> clk (ticks ?s')" using le by (simp add: tk)
  next
    fix e assume "e \<in> set (pass_events ?s')"
    then show "ts_start (pass_ts e) \<le> ts_end (pass_ts e) + 1" by (rule e2)
  next
    fix e assume "e \<in> set (pass_events ?s')" "strict_clock clk"
    then show "ts_start (pass_ts e) \<le> ts_end (pass_ts e)" by (rule e3)
  next
    show "sorted_wrt (\<lambda>a b. ts_end (pass_ts a) < ts_start (pass_ts b)) (pass_events ?s')"
      by (rule srt)
  next
    fix e assume "e \<in> set (pass_events ?s')"
    from e1 [OF this] show "ts_end (pass_ts e) < ts_start (pass_ts (last_pass ?s'))"
      by (simp add: lp)
  next
    show "ts_start (pass_ts (last_pass ?s')) \<le> clk (ticks ?s') + 1"
      using le by (simp add: lp tk)
  next
    assume "strict_clock clk"
    from lt [OF this] show "ts_start (pass_ts (last_pass ?s')) \<le> clk (ticks ?s')"
      by (simp add: lp tk)
  qed
qed

lemma span_inv_end:
  assumes mono: "monotone_clock clk" and inv: "span_inv clk s"
    and e: "end_preprocess_file clk s = Inr s'"
  shows "span_inv clk s'"
proof -
  from end_preprocess_file_fields [OF e] have
    f: "ticks s' = Suc (ticks s)" "last_function_parsed_ts s' = clk (ticks s) + 3"
      "last_pass s' = last_pass s" "pass_events s' = pass_events s"
      "function_events s' = function_events s"
    by auto
  from inv have "inclusion_inv clk s" "function_inv clk s" "stage_inv clk s"
    by (simp_all add: span_inv_def)
  then have "inclusion_inv clk s'" "function_inv clk s'" "stage_inv clk s'"
    using inclusion_inv_end [OF mono _ e] function_inv_boundary [OF mono _ f(1) f(5)]
      stage_inv_tick [OF mono _ f(1) f(4) f(3)] f(2)
    by simp_all
  then show ?thesis by (simp add: span_inv_def)
qed

lemma span_inv_reading:
  assumes mono: "monotone_clock clk" and inv: "span_inv clk s"
  shows "span_inv clk
           (snd (ns_from_start clk s)\<lparr>last_function_parsed_ts := fst (ns_from_start clk s)\<rparr>)"
proof -
  let ?s' = "snd (ns_from_start clk s)\<lparr>last_function_parsed_ts := fst (ns_from_start clk s)\<rparr>"
  from inv have "inclusion_inv clk s" "function_inv clk s" "stage_inv clk s"
    by (simp_all add: span_inv_def)
  then have "inclusion_inv clk ?s'" "function_inv clk ?s'" "stage_inv clk ?s'"
    using inclusion_inv_tick [OF mono, of s ?s'] function_inv_boundary [OF mono, of s ?s']
      stage_inv_tick [OF mono, of s ?s']
    by (simp_all add: reading_fields)
  then show ?thesis by (simp add: span_inv_def)
qed

lemma span_inv_step:
  assumes mono: "monotone_clock clk" and inv: "span_inv clk s"
    and st: "step clk realpath c s = Inr s'"
  shows "span_inv clk s'"
proof (cases c)
  case (StartPreprocessFile file_name pfile)
  with st have e: "start_preprocess_file clk realpath file_name pfile s = Inr s'" by simp
  have f: "ticks s' = Suc (ticks s) \<and> last_function_parsed_ts s' = last_function_parsed_ts s \<and>
      last_pass s' = last_pass s \<and> pass_events s' = pass_events s \<and>
      function_events s' = function_events s"
  proof (cases "file_name = None \<or> file_name = Some ''<command-line>''")
    case True
    from e have "s' = s\<lparr>ticks := Suc (ticks s)\<rparr>"
      by (simp only: start_preprocess_file_skip [OF True] sum.inject)
    then show ?thesis by simp
  next
    case False
    then obtain fname where fn: "file_name = Some fname" "fname \<noteq> ''<command-line>''" by auto
    from start_preprocess_file_tracked [OF e [unfolded fn(1)] fn(2)] show ?thesis by blast
  qed
  from inv have "inclusion_inv clk s" "function_inv clk s" "stage_inv clk s"
    by (simp_all add: span_inv_def)
  then have "inclusion_inv clk s'" "function_inv clk s'" "stage_inv clk s'"
    using inclusion_inv_start [OF mono _ e] function_inv_boundary [OF mono, of s s']
      stage_inv_tick [OF mono, of s s'] f
    by simp_all
  then show ?thesis by (simp add: span_inv_def)
next
  case EndPreprocessFile
  with st show ?thesis using span_inv_end [OF mono inv] by simp
next
  case FinishPreprocessingStage
  with st have fin: "finish_preprocessing_stage clk s = Inr s'" by simp
  show ?thesis
  proof (rule finish_preprocessing_stage_preserves [where P = "span_inv clk", OF _ _ inv fin])
    show "\<And>s s'. span_inv clk s \<Longrightarrow> end_preprocess_file clk s = Inr s' \<Longrightarrow> span_inv clk s'"
      by (rule span_inv_end [OF mono])
    show "\<And>s. span_inv clk s \<Longrightarrow> span_inv clk
          (snd (ns_from_start clk s)\<lparr>last_function_parsed_ts := fst (ns_from_start clk s)\<rparr>)"
      by (rule span_inv_reading [OF mono])
  qed
next
  case (StartOptPass p)
  with st have s': "s' = start_opt_pass clk p s" by simp
  from inv have "inclusion_inv clk s" "function_inv clk s" "stage_inv clk s"
    by (simp_all add: span_inv_def)
  then have "inclusion_inv clk s'" "function_inv clk s'" "stage_inv clk s'"
    using inclusion_inv_tick [OF mono, of s s'] function_inv_boundary [OF mono, of s s']
      stage_inv_start [OF mono, of s p]
    by (simp_all add: s' start_opt_pass_fields)
  then show ?thesis by (simp add: span_inv_def)
next
  case (EndParseFunction info)
  with st have s': "s' = end_parse_function clk info s" by simp
  from inv have "inclusion_inv clk s" "function_inv clk s" "stage_inv clk s"
    by (simp_all add: span_inv_def)
  then have "inclusion_inv clk s'" "function_inv clk s'" "stage_inv clk s'"
    using inclusion_inv_tick [OF mono, of s s'] function_inv_parse [OF mono, of s info]
      stage_inv_tick [OF mono, of s s']
    by (simp_all add: s' end_parse_function_fields)
  then show ?thesis by (simp add: span_inv_def)
qed

lemma span_inv_init: "span_inv clk init_tracker"
  by (simp add: span_inv_def inclusion_inv_def function_inv_def stage_inv_def init_tracker_def
        contains_def)

lemma span_inv_run:
  assumes "monotone_clock clk" and "run clk realpath cbs init_tracker = Inr s"
  shows "span_inv clk s"
  by (rule run_preserves [where P = "span_inv clk", OF span_inv_step [OF assms(1)] span_inv_init assms(2)])

lemma spaced_clock_Suc: "spaced_clock clk \<Longrightarrow> clk n + 6 \<le> clk (Suc n)"
  by (simp add: spaced_clock_def)

lemma nudge_inv_boundary:
  assumes mono: "monotone_clock clk" and inv: "nudge_inv clk s"
    and tk: "ticks s' = Suc (ticks s)"
    and fe: "function_events s' = function_events s"
    and se: "scope_events s' = scope_events s"
    and lt: "last_function_parsed_ts s' = last_function_parsed_ts s
             \<or> last_function_parsed_ts s' = clk (ticks s)
             \<or> last_function_parsed_ts s' = clk (ticks s) + 3"
  shows "nudge_inv clk s'"
proof -
  have le: "clk (ticks s) \<le> clk (Suc (ticks s))" using mono by (rule monotone_clock_Suc)
  from inv have i0: "\<And>e. e \<in> set (scope_events s) \<Longrightarrow> ts_end (scope_ev_ts e) \<le> clk (ticks s) + 1"
    and i1: "0 \<le> clk 0 \<Longrightarrow> last_function_parsed_ts s \<le> clk (ticks s) + 3"
    and i2: "\<And>e. 0 \<le> clk 0 \<Longrightarrow> e \<in> set (function_events s) \<Longrightarrow>
               ts_start (fn_ev_ts e) \<le> ts_end (fn_ev_ts e) + 6"
    and i3: "\<And>e. 0 \<le> clk 0 \<Longrightarrow> e \<in> set (scope_events s) \<Longrightarrow>
               ts_start (scope_ev_ts e) \<le> ts_end (scope_ev_ts e) + 4"
    and j1: "spaced_clock clk \<Longrightarrow> last_function_parsed_ts s + 3 \<le> clk (ticks s)"
    and j2: "\<And>e. spaced_clock clk \<Longrightarrow> e \<in> set (function_events s) \<Longrightarrow>
               ts_start (fn_ev_ts e) \<le> ts_end (fn_ev_ts e)"
    and j3: "\<And>e. spaced_clock clk \<Longrightarrow> e \<in> set (scope_events s) \<Longrightarrow>
               ts_start (scope_ev_ts e) \<le> ts_end (scope_ev_ts e)"
    unfolding nudge_inv_def by blast+
  have a: "ts_end (scope_ev_ts e) \<le> clk (ticks s') + 1" if "e \<in> set (scope_events s)" for e
    using i0 [OF that] le by (simp add: tk)
  have b: "last_function_parsed_ts s' \<le> clk (ticks s') + 3" if "0 \<le> clk 0"
    using i1 [OF that] le lt by (auto simp: tk)
  have c: "last_function_parsed_ts s' + 3 \<le> clk (ticks s')" if "spaced_clock clk"
    using j1 [OF that] spaced_clock_Suc [OF that, of "ticks s"] le lt by (auto simp: tk)
  show ?thesis
    unfolding nudge_inv_def fe se
    using a b c i2 i3 j2 j3 by blast
qed

lemma nudge_inv_parse:
  assumes mono: "monotone_clock clk" and inv: "nudge_inv clk s"
  shows "nudge_inv clk (end_parse_function clk info s)"
proof -
  let ?s' = "end_parse_function clk info s"
  let ?new = "\<lparr>fn_ev_name = ff_name info, fn_ev_file_name = ff_file_name info,
       fn_ev_ts = \<lparr>ts_start = last_function_parsed_ts s + 3, ts_end = clk (ticks s)\<rparr>\<rparr>"
  have fe: "function_events ?s' = function_events s @ [?new]"
    and tk: "ticks ?s' = Suc (ticks s)"
    and lt: "last_function_parsed_ts ?s' = clk (ticks s)"
    by (simp_all add: end_parse_function_fields)
  have le: "clk (ticks s) \<le> clk (Suc (ticks s))" using mono by (rule monotone_clock_Suc)
  from inv have i0: "\<And>e. e \<in> set (scope_events s) \<Longrightarrow> ts_end (scope_ev_ts e) \<le> clk (ticks s) + 1"
    and i1: "0 \<le> clk 0 \<Longrightarrow> last_function_parsed_ts s \<le> clk (ticks s) + 3"
    and i2: "\<And>e. 0 \<le> clk 0 \<Longrightarrow> e \<in> set (function_events s) \<Longrightarrow>
               ts_start (fn_ev_ts e) \<le> ts_end (fn_ev_ts e) + 6"
    and i3: "\<And>e. 0 \<le> clk 0 \<Longrightarrow> e \<in> set (scope_events s) \<Longrightarrow>
               ts_start (scope_ev_ts e) \<le> ts_end (scope_ev_ts e) + 4"
    and j1: "spaced_clock clk \<Longrightarrow> last_function_parsed_ts s + 3 \<le> clk (ticks s)"
    and j2: "\<And>e. spaced_clock clk \<Longrightarrow> e \<in> set (function_events s) \<Longrightarrow>
               ts_start (fn_ev_ts e) \<le> ts_end (fn_ev_ts e)"
    and j3: "\<And>e. spaced_clock clk \<Longrightarrow> e \<in> set (scope_events s) \<Longrightarrow>
               ts_start (scope_ev_ts e) \<le> ts_end (scope_ev_ts e)"
    unfolding nudge_inv_def by blast+
  have scope: "e \<in> set (scope_events s)
      \<or> ts_start (scope_ev_ts e) = last_function_parsed_ts s + 3 - 1 \<and>
         ts_end (scope_ev_ts e) = clk (ticks s) + 1
      \<or> (\<exists>old \<in> set (scope_events s).
           ts_start (scope_ev_ts e) = ts_start (scope_ev_ts old) \<and>
           ts_end (scope_ev_ts e) = clk (ticks s) + 1)"
    if "e \<in> set (scope_events ?s')" for e
  proof (cases "ff_scope_name info")
    case None
    with that show ?thesis by (simp add: end_parse_function_scope_none)
  next
    case (Some ns)
    show ?thesis
    proof (cases "scope_events s \<noteq> [] \<and> did_last_function_have_scope s
                    \<and> scope_ev_name (last (scope_events s)) = ns")
      case False
      from that show ?thesis
        by (auto simp: end_parse_function_scope_new [OF Some False])
    next
      case True
      then have ext: "scope_events ?s' = butlast (scope_events s) @
          [(last (scope_events s))
             \<lparr>scope_ev_ts := (scope_ev_ts (last (scope_events s)))\<lparr>ts_end := clk (ticks s) + 1\<rparr>\<rparr>]"
        using end_parse_function_scope_extend [OF Some] by blast
      from True have l: "last (scope_events s) \<in> set (scope_events s)" by simp
      from that have "e \<in> set (butlast (scope_events s))
          \<or> e = (last (scope_events s))
             \<lparr>scope_ev_ts := (scope_ev_ts (last (scope_events s)))\<lparr>ts_end := clk (ticks s) + 1\<rparr>\<rparr>"
        by (auto simp: ext)
      then show ?thesis
      proof
        assume "e \<in> set (butlast (scope_events s))"
        then show ?thesis by (auto dest: in_set_butlastD)
      next
        assume "e = (last (scope_events s))
             \<lparr>scope_ev_ts := (scope_ev_ts (last (scope_events s)))\<lparr>ts_end := clk (ticks s) + 1\<rparr>\<rparr>"
        with l show ?thesis by auto
      qed
    qed
  qed
  have fn: "e \<in> set (function_events s) \<or> e = ?new" if "e \<in> set (function_events ?s')" for e
    using that by (auto simp: fe)
  have a: "ts_end (scope_ev_ts e) \<le> clk (ticks ?s') + 1" if "e \<in> set (scope_events ?s')" for e
    using scope [OF that] i0 le by (fastforce simp: tk)
  have b2: "ts_start (fn_ev_ts e) \<le> ts_end (fn_ev_ts e) + 6"
    if "0 \<le> clk 0" "e \<in> set (function_events ?s')" for e
    using fn [OF that(2)] i2 [OF that(1)] i1 [OF that(1)] by auto
  have b3: "ts_start (scope_ev_ts e) \<le> ts_end (scope_ev_ts e) + 4"
    if "0 \<le> clk 0" "e \<in> set (scope_events ?s')" for e
    using scope [OF that(2)] i3 [OF that(1)] i1 [OF that(1)] i0 by fastforce
  have c1: "last_function_parsed_ts ?s' + 3 \<le> clk (ticks ?s')" if "spaced_clock clk"
    using spaced_clock_Suc [OF that, of "ticks s"] by (simp add: tk lt)
  have c2: "ts_start (fn_ev_ts e) \<le> ts_end (fn_ev_ts e)"
    if "spaced_clock clk" "e \<in> set (function_events ?s')" for e
    using fn [OF that(2)] j2 [OF that(1)] j1 [OF that(1)] by auto
  have c3: "ts_start (scope_ev_ts e) \<le> ts_end (scope_ev_ts e)"
    if "spaced_clock clk" "e \<in> set (scope_events ?s')" for e
    using scope [OF that(2)] j3 [OF that(1)] j1 [OF that(1)] i0 by fastforce
  have b1: "last_function_parsed_ts ?s' \<le> clk (ticks ?s') + 3"
    using le by (simp add: tk lt)
  show ?thesis
    unfolding nudge_inv_def using a b1 b2 b3 c1 c2 c3 by blast
qed


lemma nudge_inv_end:
  assumes mono: "monotone_clock clk" and inv: "nudge_inv clk s"
    and e: "end_preprocess_file clk s = Inr s'"
  shows "nudge_inv clk s'"
proof -
  from end_preprocess_file_fields [OF e] have
    "ticks s' = Suc (ticks s)" "function_events s' = function_events s"
    "scope_events s' = scope_events s" "last_function_parsed_ts s' = clk (ticks s) + 3"
    by auto
  then show ?thesis by (intro nudge_inv_boundary [OF mono inv]) simp_all
qed

lemma nudge_inv_reading:
  assumes mono: "monotone_clock clk" and inv: "nudge_inv clk s"
  shows "nudge_inv clk
           (snd (ns_from_start clk s)\<lparr>last_function_parsed_ts := fst (ns_from_start clk s)\<rparr>)"
  by (rule nudge_inv_boundary [OF mono inv]) (simp_all add: reading_fields)

lemma nudge_inv_tick:
  assumes "monotone_clock clk" and "nudge_inv clk s"
  shows "nudge_inv clk (s\<lparr>ticks := Suc (ticks s)\<rparr>)"
  by (rule nudge_inv_boundary [OF assms]) simp_all

lemma nudge_inv_step:
  assumes mono: "monotone_clock clk" and inv: "nudge_inv clk s"
    and st: "step clk realpath c s = Inr s'"
  shows "nudge_inv clk s'"
proof (cases c)
  case (StartPreprocessFile file_name pfile)
  with st have e: "start_preprocess_file clk realpath file_name pfile s = Inr s'" by simp
  have "ticks s' = Suc (ticks s) \<and> last_function_parsed_ts s' = last_function_parsed_ts s \<and>
      scope_events s' = scope_events s \<and> function_events s' = function_events s"
  proof (cases "file_name = None \<or> file_name = Some ''<command-line>''")
    case True
    from e have "s' = s\<lparr>ticks := Suc (ticks s)\<rparr>"
      by (simp only: start_preprocess_file_skip [OF True] sum.inject)
    then show ?thesis by simp
  next
    case False
    then obtain fname where fn: "file_name = Some fname" "fname \<noteq> ''<command-line>''" by auto
    from start_preprocess_file_tracked [OF e [unfolded fn(1)] fn(2)] show ?thesis by blast
  qed
  then show ?thesis by (intro nudge_inv_boundary [OF mono inv]) simp_all
next
  case EndPreprocessFile
  with st show ?thesis using nudge_inv_end [OF mono inv] by simp
next
  case FinishPreprocessingStage
  with st have fin: "finish_preprocessing_stage clk s = Inr s'" by simp
  show ?thesis
  proof (rule finish_preprocessing_stage_preserves [where P = "nudge_inv clk", OF _ _ inv fin])
    show "\<And>s s'. nudge_inv clk s \<Longrightarrow> end_preprocess_file clk s = Inr s' \<Longrightarrow> nudge_inv clk s'"
      by (rule nudge_inv_end [OF mono])
    show "\<And>s. nudge_inv clk s \<Longrightarrow> nudge_inv clk
          (snd (ns_from_start clk s)\<lparr>last_function_parsed_ts := fst (ns_from_start clk s)\<rparr>)"
      by (rule nudge_inv_reading [OF mono])
  qed
next
  case (StartOptPass p)
  with st have "s' = start_opt_pass clk p s" by simp
  then show ?thesis
    by (intro nudge_inv_boundary [OF mono inv]) (simp_all add: start_opt_pass_fields)
next
  case (EndParseFunction info)
  with st show ?thesis using nudge_inv_parse [OF mono inv] by auto
qed

lemma nudge_inv_init: "nudge_inv clk init_tracker"
  by (simp add: nudge_inv_def init_tracker_def spaced_clock_def)

lemma nudge_inv_run:
  assumes "monotone_clock clk" and "run clk realpath cbs init_tracker = Inr s"
  shows "nudge_inv clk s"
  by (rule run_preserves [where P = "nudge_inv clk", OF nudge_inv_step [OF assms(1)] nudge_inv_init assms(2)])

lemma span_inv_ordered: "span_inv clk s \<Longrightarrow> nudge_inv clk s \<Longrightarrow> spans_ordered clk s"
  unfolding span_inv_def inclusion_inv_def function_inv_def stage_inv_def nudge_inv_def
    spans_ordered_def
  by blast

lemma write_functions_loop_state: "fst (write_functions_loop pid fs s out) = s"
proof (induction fs arbitrary: out)
  case Nil
  show ?case by simp
next
  case (Cons f fs)
  obtain nm where nm: "normalized_file_name (fn_ev_file_name f) s = (nm, s)"
    using normalized_file_name_state [of "fn_ev_file_name f" s]
    by (cases "normalized_file_name (fn_ev_file_name f) s") simp
  show ?case by (simp add: nm Cons.IH)
qed

lemma write_opt_pass_loop_events:
  "map pass evs = map Some qs \<Longrightarrow>
   write_opt_pass_loop pid evs out =
     Inr (add_events pid (map (\<lambda>(p, e). pass_trace_event p (pass_ts e)) (zip qs evs)) out)"
proof (induction evs arbitrary: qs out)
  case Nil
  then show ?case by simp
next
  case (Cons e evs)
  then obtain q qs' where qs: "qs = q # qs'" "pass e = Some q" "map pass evs = map Some qs'"
    by (cases qs) auto
  show ?case by (simp add: qs Cons.IH [OF qs(3)])
qed

lemma write_preprocessing_loop_state:
  "write_preprocessing_loop pid its s o1 = Inr r \<Longrightarrow> fst r = s"
proof (induction its arbitrary: o1)
  case Nil
  then show ?case by auto
next
  case (Cons item its)
  obtain f a where item: "item = (f, a)" by (cases item)
  obtain nm where nm: "normalized_file_name f s = (nm, s)"
    using normalized_file_name_state [of f s] by (cases "normalized_file_name f s") simp
  show ?case
  proof (cases "f = CIRCULAR_POISON_VALUE")
    case True
    with Cons.prems item show ?thesis by (auto dest: Cons.IH)
  next
    case False
    show ?thesis
    proof (cases "preprocess_end s f")
      case None
      with Cons.prems item False show ?thesis by simp
    next
      case (Some b)
      with Cons.prems item False nm show ?thesis by (auto dest: Cons.IH)
    qed
  qed
qed

lemma write_all_events_unfold:
  "write_all_events pid clk items s out =
      (case write_preprocessing_events pid clk items (s\<lparr>ticks := Suc (ticks s)\<rparr>)
              (add_event pid \<lparr>ev_name = ''TU'', ev_category = TU,
                    ev_ts = \<lparr>ts_start = 0, ts_end = clk (ticks s)\<rparr>, ev_args = None\<rparr> out) of
           Inl e \<Rightarrow> Inl e
         | Inr (s2, out2) \<Rightarrow>
             (case write_opt_pass_events pid s2 out2 of
                Inl e \<Rightarrow> Inl e
              | Inr out3 \<Rightarrow>
                  Inr (fst (write_all_functions pid s2 out3),
                       write_all_scopes pid (fst (write_all_functions pid s2 out3))
                         (snd (write_all_functions pid s2 out3)))))"
  by (simp add: write_all_events_def ns_from_start_def Let_def split_def split: sum.split)

lemma write_all_events_parts:
  assumes "write_all_events pid clk items s out = Inr (s', out')"
  shows "\<exists>out1 out2 out3.
           finish_preprocessing_stage clk (s\<lparr>ticks := Suc (ticks s)\<rparr>) = Inr s' \<and>
           write_preprocessing_events pid clk items (s\<lparr>ticks := Suc (ticks s)\<rparr>) out1 = Inr (s', out2) \<and>
           write_opt_pass_events pid s' out2 = Inr out3"
proof -
  let ?s0 = "s\<lparr>ticks := Suc (ticks s)\<rparr>"
  let ?out1 = "add_event pid \<lparr>ev_name = ''TU'', ev_category = TU,
                    ev_ts = \<lparr>ts_start = 0, ts_end = clk (ticks s)\<rparr>, ev_args = None\<rparr> out"
  note unfolded = write_all_events_unfold [of pid clk items s out]
  from assms obtain s2 out2 where wp: "write_preprocessing_events pid clk items ?s0 ?out1 = Inr (s2, out2)"
    unfolding unfolded by (cases "write_preprocessing_events pid clk items ?s0 ?out1") auto
  from assms wp obtain out3 where wo: "write_opt_pass_events pid s2 out2 = Inr out3"
    unfolding unfolded by (cases "write_opt_pass_events pid s2 out2") auto
  from assms wp wo have "s' = fst (write_all_functions pid s2 out3)"
    unfolding unfolded by simp
  then have s': "s' = s2" by (simp add: write_all_functions_def write_functions_loop_state)
  obtain s1 where fin: "finish_preprocessing_stage clk ?s0 = Inr s1"
    using finish_preprocessing_stage_total by blast
  with wp have "write_preprocessing_loop pid items s1 ?out1 = Inr (s2, out2)"
    by (simp add: write_preprocessing_events_def)
  from write_preprocessing_loop_state [OF this] have "s2 = s1" by simp
  with fin wp wo s' show ?thesis by blast
qed

lemma span_inv_tick:
  assumes "monotone_clock clk" and "span_inv clk s"
  shows "span_inv clk (s\<lparr>ticks := Suc (ticks s)\<rparr>)"
proof -
  let ?s' = "s\<lparr>ticks := Suc (ticks s)\<rparr>"
  from assms(2) have "inclusion_inv clk s" "function_inv clk s" "stage_inv clk s"
    by (simp_all add: span_inv_def)
  then have "inclusion_inv clk ?s'" "function_inv clk ?s'" "stage_inv clk ?s'"
    using inclusion_inv_tick [OF assms(1), of s ?s'] function_inv_boundary [OF assms(1), of s ?s']
      stage_inv_tick [OF assms(1), of s ?s']
    by simp_all
  then show ?thesis by (simp add: span_inv_def)
qed

lemma finish_keeps_passes:
  "finish_preprocessing_stage clk s = Inr s' \<Longrightarrow>
   pass_events s' = pass_events s \<and> last_pass s' = last_pass s"
proof (rule finish_preprocessing_stage_preserves
         [where P = "\<lambda>t. pass_events t = pass_events s \<and> last_pass t = last_pass s"
            and s = s and clk = clk])
  show "\<And>t t'. pass_events t = pass_events s \<and> last_pass t = last_pass s \<Longrightarrow>
          end_preprocess_file clk t = Inr t' \<Longrightarrow>
          pass_events t' = pass_events s \<and> last_pass t' = last_pass s"
    using end_preprocess_file_fields by fastforce
  show "\<And>t. pass_events t = pass_events s \<and> last_pass t = last_pass s \<Longrightarrow>
     pass_events (snd (ns_from_start clk t)\<lparr>last_function_parsed_ts := fst (ns_from_start clk t)\<rparr>)
       = pass_events s \<and>
     last_pass (snd (ns_from_start clk t)\<lparr>last_function_parsed_ts := fst (ns_from_start clk t)\<rparr>)
       = last_pass s"
    by (simp add: reading_fields)
qed simp_all

lemma step_keeps_passes:
  assumes "step clk realpath c s = Inr s'" and "\<And>p. c \<noteq> StartOptPass p"
  shows "pass_events s' = pass_events s \<and> last_pass s' = last_pass s"
proof (cases c)
  case (StartPreprocessFile file_name pfile)
  with assms(1) have e: "start_preprocess_file clk realpath file_name pfile s = Inr s'" by simp
  show ?thesis
  proof (cases "file_name = None \<or> file_name = Some ''<command-line>''")
    case True
    from e have "s' = s\<lparr>ticks := Suc (ticks s)\<rparr>"
      by (simp only: start_preprocess_file_skip [OF True] sum.inject)
    then show ?thesis by simp
  next
    case False
    then obtain fname where fn: "file_name = Some fname" "fname \<noteq> ''<command-line>''" by auto
    from start_preprocess_file_tracked [OF e [unfolded fn(1)] fn(2)] show ?thesis by blast
  qed
next
  case EndPreprocessFile
  with assms(1) show ?thesis using end_preprocess_file_fields [of clk s s'] by auto
next
  case FinishPreprocessingStage
  with assms(1) show ?thesis using finish_keeps_passes by simp
next
  case (StartOptPass p)
  with assms(2) [of p] show ?thesis by simp
next
  case (EndParseFunction info)
  with assms(1) show ?thesis by (auto simp: end_parse_function_fields)
qed

lemma pass_history_start:
  "pass_history (start_opt_pass clk p s) =
     pass_history s @ (case p of None \<Rightarrow> [] | Some q \<Rightarrow> [Some q])"
  by (cases p; cases "pass (last_pass s)") (simp_all add: pass_history_def start_opt_pass_fields)

lemma pass_history_step:
  assumes "step clk realpath c s = Inr s'"
  shows "pass_history s' = pass_history s @ map Some (started_passes [c])"
proof (cases "\<exists>p. c = StartOptPass p")
  case True
  then obtain p where c: "c = StartOptPass p" by blast
  with assms have "s' = start_opt_pass clk p s" by simp
  then show ?thesis by (cases p) (simp_all add: c pass_history_start)
next
  case False
  then have "pass_events s' = pass_events s \<and> last_pass s' = last_pass s"
    using step_keeps_passes [OF assms] by blast
  moreover from False have "started_passes [c] = []" by (cases c) auto
  ultimately show ?thesis by (simp add: pass_history_def)
qed

lemma started_passes_Cons: "started_passes (c # cs) = started_passes [c] @ started_passes cs"
  by (cases "c # cs" rule: started_passes.cases) auto

lemma pass_history_run:
  "run clk realpath cbs s = Inr s' \<Longrightarrow>
   pass_history s' = pass_history s @ map Some (started_passes cbs)"
proof (induction cbs arbitrary: s)
  case Nil
  then show ?case by simp
next
  case (Cons c cbs)
  from Cons.prems obtain s1 where s1: "step clk realpath c s = Inr s1"
    and rest: "run clk realpath cbs s1 = Inr s'"
    by (cases "step clk realpath c s") simp_all
  show ?case
    using Cons.IH [OF rest] pass_history_step [OF s1] started_passes_Cons [of c cbs] by simp
qed

lemma last_pass_run:
  "run clk realpath cbs s = Inr s' \<Longrightarrow> StartOptPass None \<notin> set cbs \<Longrightarrow>
   pass (last_pass s') =
     (if started_passes cbs = [] then pass (last_pass s) else Some (last (started_passes cbs)))"
proof (induction cbs arbitrary: s)
  case Nil
  then show ?case by simp
next
  case (Cons c cbs)
  from Cons.prems(1) obtain s1 where s1: "step clk realpath c s = Inr s1"
    and rest: "run clk realpath cbs s1 = Inr s'"
    by (cases "step clk realpath c s") simp_all
  from Cons.prems(2) have nn: "StartOptPass None \<notin> set cbs" and c: "c \<noteq> StartOptPass None" by auto
  note IH = Cons.IH [OF rest nn]
  show ?case
  proof (cases "\<exists>p. c = StartOptPass (Some p)")
    case True
    then obtain p where cp: "c = StartOptPass (Some p)" by blast
    with s1 have "pass (last_pass s1) = Some p" by (auto simp: start_opt_pass_fields)
    with IH show ?thesis by (simp add: cp)
  next
    case False
    with c have np: "\<And>p. c \<noteq> StartOptPass p" by (metis option.exhaust)
    from step_keeps_passes [OF s1 np] have "pass (last_pass s1) = pass (last_pass s)" by simp
    moreover from np have "started_passes (c # cbs) = started_passes cbs" by (cases c) auto
    ultimately show ?thesis using IH by simp
  qed
qed

lemma write_all_events_total:
  assumes "open_files_on_stack s" and "enumerates items (preprocess_start s)"
    and "map pass (pass_events s) = map Some qs"
  shows "\<exists>s' out'. write_all_events pid clk items s out = Inr (s', out')"
proof -
  let ?s0 = "s\<lparr>ticks := Suc (ticks s)\<rparr>"
  let ?out1 = "add_event pid \<lparr>ev_name = ''TU'', ev_category = TU,
                    ev_ts = \<lparr>ts_start = 0, ts_end = clk (ticks s)\<rparr>, ev_args = None\<rparr> out"
  from finish_preprocessing_stage_total obtain s1 where
    fin: "finish_preprocessing_stage clk ?s0 = Inr s1" and empty: "preprocessing_stack s1 = []"
    by blast
  have "open_files_on_stack ?s0" by (rule open_files_cong [OF assms(1)]) simp_all
  then have "open_files_on_stack s1"
    using open_files_step [of ?s0 clk no_realpath FinishPreprocessingStage s1] fin by simp
  with empty have closed: "\<forall>f. contains (preprocess_start s1) f \<longrightarrow> contains (preprocess_end s1) f"
    by (simp add: open_files_on_stack_def)
  have st: "preprocess_start s1 = preprocess_start s"
    using finish_keeps_preprocess_start [OF fin] by simp
  have "\<forall>(f, a) \<in> set items. contains (preprocess_start s1) f"
    using enumerates_member [OF assms(2)] by (auto simp: st contains_def)
  with closed have "\<forall>(f, a) \<in> set items. f \<noteq> CIRCULAR_POISON_VALUE \<longrightarrow> contains (preprocess_end s1) f"
    by auto
  from write_preprocessing_loop_total [OF this]
  obtain out2 where "write_preprocessing_loop pid items s1 ?out1 = Inr (s1, out2)" by blast
  then have wp: "write_preprocessing_events pid clk items ?s0 ?out1 = Inr (s1, out2)"
    by (simp add: write_preprocessing_events_def fin)
  have "map pass (pass_events s1) = map Some qs"
    using finish_keeps_passes [OF fin] assms(3) by simp
  from write_opt_pass_loop_events [OF this]
  obtain out3 where wo: "write_opt_pass_events pid s1 out2 = Inr out3"
    by (simp add: write_opt_pass_events_def)
  show ?thesis by (simp add: write_all_events_unfold wp wo)
qed

lemma write_all_events_pass_records:
  assumes "run clk realpath cbs init_tracker = Inr s"
    and "StartOptPass None \<notin> set cbs" and "started_passes cbs \<noteq> []"
    and "enumerates items (preprocess_start s)"
  shows "map pass (pass_events s) = map Some (butlast (started_passes cbs)) \<and>
         pass (last_pass s) = Some (last (started_passes cbs)) \<and>
         (\<exists>s' out2.
            write_preprocessing_events pid clk items (s\<lparr>ticks := Suc (ticks s)\<rparr>)
              (add_event pid
                 \<lparr>ev_name = ''TU'', ev_category = TU,
                  ev_ts = \<lparr>ts_start = 0, ts_end = clk (ticks s)\<rparr>, ev_args = None\<rparr> out)
              = Inr (s', out2) \<and>
            pass_events s' = pass_events s \<and> last_pass s' = last_pass s \<and>
            write_all_events pid clk items s out =
              Inr (s', write_all_scopes pid s'
                         (snd (write_all_functions pid s'
                            (add_events pid
                               (map (\<lambda>(p, e). pass_trace_event p (pass_ts e))
                                  (zip (butlast (started_passes cbs)) (pass_events s)))
                               out2)))))"
proof -
  let ?ps = "started_passes cbs"
  let ?s0 = "s\<lparr>ticks := Suc (ticks s)\<rparr>"
  let ?out1 = "add_event pid \<lparr>ev_name = ''TU'', ev_category = TU,
                    ev_ts = \<lparr>ts_start = 0, ts_end = clk (ticks s)\<rparr>, ev_args = None\<rparr> out"
  have pending: "pass (last_pass s) = Some (last ?ps)"
    using last_pass_run [OF assms(1,2)] assms(3) by simp
  have "pass_history s = pass_history init_tracker @ map Some ?ps"
    using assms(1) by (rule pass_history_run)
  then have "map pass (pass_events s) @ [Some (last ?ps)] = map Some ?ps"
    by (simp add: pass_history_def pending init_tracker_def)
  also have "map Some ?ps = map Some (butlast ?ps) @ [Some (last ?ps)]"
    using assms(3) by (metis append_butlast_last_id list.simps(8,9) map_append)
  finally have hist: "map pass (pass_events s) = map Some (butlast ?ps)" by simp
  have "open_files_on_stack s" using assms(1) by (rule open_files_run)
  from write_all_events_total [OF this assms(4) hist]
  obtain s' out' where w: "write_all_events pid clk items s out = Inr (s', out')" by blast
  from write_all_events_parts [OF w]
  have fin: "finish_preprocessing_stage clk ?s0 = Inr s'" by blast
  from finish_keeps_passes [OF fin]
  have keep: "pass_events s' = pass_events s" "last_pass s' = last_pass s" by simp_all
  from w obtain s2 out2 where wp: "write_preprocessing_events pid clk items ?s0 ?out1 = Inr (s2, out2)"
    unfolding write_all_events_unfold
    by (cases "write_preprocessing_events pid clk items ?s0 ?out1") auto
  from wp fin have "write_preprocessing_loop pid items s' ?out1 = Inr (s2, out2)"
    by (simp add: write_preprocessing_events_def)
  from write_preprocessing_loop_state [OF this] have s2: "s2 = s'" by simp
  have wo: "write_opt_pass_events pid s' out2 =
      Inr (add_events pid
             (map (\<lambda>(p, e). pass_trace_event p (pass_ts e)) (zip (butlast ?ps) (pass_events s)))
             out2)"
    unfolding write_opt_pass_events_def keep using hist by (rule write_opt_pass_loop_events)
  have fs: "fst (write_all_functions pid s' out3) = s'" for out3
    by (simp add: write_all_functions_def write_functions_loop_state)
  have "write_all_events pid clk items s out =
      Inr (s', write_all_scopes pid s'
                 (snd (write_all_functions pid s'
                    (add_events pid
                       (map (\<lambda>(p, e). pass_trace_event p (pass_ts e))
                          (zip (butlast ?ps) (pass_events s)))
                       out2))))"
    by (simp add: write_all_events_unfold wp [unfolded s2] wo fs)
  with wp [unfolded s2] keep hist pending show ?thesis by blast
qed

section \<open>The claims\<close>

text \<open>
  C1 (as amended). For every run of callbacks under a monotone clock, in the tracker the run
  leaves behind and in the tracker \<open>write_all_events\<close> works on:
  every inclusion with both times has \<open>end \<ge> start\<close>;
  every pass record of the history has \<open>end \<ge> start - 1\<close>, and \<open>end \<ge> start\<close> when every
  reading is greater than the one before;
  when the clock starts at 0 or later, every function record has \<open>end \<ge> start - 6\<close> and
  every scope record \<open>end \<ge> start - 4\<close>, and both have \<open>end \<ge> start\<close> when the first
  reading is at least 3 ns and every later one at least 6 ns after the one before;
  and of any two records of the pass history, or of the function list, the later one
  starts strictly after the earlier one has ended.
\<close>

theorem recorded_spans_ordered:
  assumes "monotone_clock clk" and "run clk realpath cbs init_tracker = Inr s"
  shows "spans_ordered clk s \<and>
         (write_all_events pid clk items s out = Inr (s', out') \<longrightarrow> spans_ordered clk s')"
proof (intro conjI impI)
  have inv: "span_inv clk s" using assms by (rule span_inv_run)
  have ninv: "nudge_inv clk s" using assms by (rule nudge_inv_run)
  from inv ninv show "spans_ordered clk s" by (rule span_inv_ordered)
  assume "write_all_events pid clk items s out = Inr (s', out')"
  from write_all_events_parts [OF this]
  have fin: "finish_preprocessing_stage clk (s\<lparr>ticks := Suc (ticks s)\<rparr>) = Inr s'" by blast
  have "span_inv clk (s\<lparr>ticks := Suc (ticks s)\<rparr>)" using assms(1) inv by (rule span_inv_tick)
  then have a: "span_inv clk s'"
    using span_inv_step [OF assms(1), of _ realpath FinishPreprocessingStage s'] fin by simp
  have "nudge_inv clk (s\<lparr>ticks := Suc (ticks s)\<rparr>)" using assms(1) ninv by (rule nudge_inv_tick)
  then have b: "nudge_inv clk s'"
    using nudge_inv_step [OF assms(1), of _ realpath FinishPreprocessingStage s'] fin by simp
  from a b show "spans_ordered clk s'" by (rule span_inv_ordered)
qed

theorem recorded_spans_ordered_witness:
  "monotone_clock clock_ms \<and> strict_clock clock_ms \<and> 0 \<le> clock_ms 0 \<and> spaced_clock clock_ms \<and>
   (run clock_ms no_realpath
      [StartPreprocessFile (Some ''main.cpp'') None,
       StartOptPass (Some (sample_pass ''inline'')),
       EndParseFunction (sample_function ''f'' (Some ''NS'')),
       StartOptPass (Some (sample_pass ''dce'')), EndPreprocessFile] init_tracker) = Inr (projr (run clock_ms no_realpath
      [StartPreprocessFile (Some ''main.cpp'') None,
       StartOptPass (Some (sample_pass ''inline'')),
       EndParseFunction (sample_function ''f'' (Some ''NS'')),
       StartOptPass (Some (sample_pass ''dce'')), EndPreprocessFile] init_tracker)) \<and>
   map fn_ev_ts (function_events (projr (run clock_ms no_realpath
      [StartPreprocessFile (Some ''main.cpp'') None,
       StartOptPass (Some (sample_pass ''inline'')),
       EndParseFunction (sample_function ''f'' (Some ''NS'')),
       StartOptPass (Some (sample_pass ''dce'')), EndPreprocessFile] init_tracker))) = [\<lparr>ts_start = 3, ts_end = 3000000\<rparr>] \<and>
   map scope_ev_ts (scope_events (projr (run clock_ms no_realpath
      [StartPreprocessFile (Some ''main.cpp'') None,
       StartOptPass (Some (sample_pass ''inline'')),
       EndParseFunction (sample_function ''f'' (Some ''NS'')),
       StartOptPass (Some (sample_pass ''dce'')), EndPreprocessFile] init_tracker))) = [\<lparr>ts_start = 2, ts_end = 3000001\<rparr>] \<and>
   map pass_ts (pass_events (projr (run clock_ms no_realpath
      [StartPreprocessFile (Some ''main.cpp'') None,
       StartOptPass (Some (sample_pass ''inline'')),
       EndParseFunction (sample_function ''f'' (Some ''NS'')),
       StartOptPass (Some (sample_pass ''dce'')), EndPreprocessFile] init_tracker))) = [\<lparr>ts_start = 2000001, ts_end = 4000000\<rparr>] \<and>
   spans_ordered clock_ms (projr (run clock_ms no_realpath
      [StartPreprocessFile (Some ''main.cpp'') None,
       StartOptPass (Some (sample_pass ''inline'')),
       EndParseFunction (sample_function ''f'' (Some ''NS'')),
       StartOptPass (Some (sample_pass ''dce'')), EndPreprocessFile] init_tracker)) \<and>
   (write_all_events 7 clock_ms [(''main.cpp'', 1000000)]
      (projr (run clock_ms no_realpath
      [StartPreprocessFile (Some ''main.cpp'') None,
       StartOptPass (Some (sample_pass ''inline'')),
       EndParseFunction (sample_function ''f'' (Some ''NS'')),
       StartOptPass (Some (sample_pass ''dce'')), EndPreprocessFile] init_tracker)) init_output) = Inr (fst (projr (write_all_events 7 clock_ms [(''main.cpp'', 1000000)]
      (projr (run clock_ms no_realpath
      [StartPreprocessFile (Some ''main.cpp'') None,
       StartOptPass (Some (sample_pass ''inline'')),
       EndParseFunction (sample_function ''f'' (Some ''NS'')),
       StartOptPass (Some (sample_pass ''dce'')), EndPreprocessFile] init_tracker)) init_output)), snd (projr (write_all_events 7 clock_ms [(''main.cpp'', 1000000)]
      (projr (run clock_ms no_realpath
      [StartPreprocessFile (Some ''main.cpp'') None,
       StartOptPass (Some (sample_pass ''inline'')),
       EndParseFunction (sample_function ''f'' (Some ''NS'')),
       StartOptPass (Some (sample_pass ''dce'')), EndPreprocessFile] init_tracker)) init_output))) \<and>
   spans_ordered clock_ms (fst (projr (write_all_events 7 clock_ms [(''main.cpp'', 1000000)]
      (projr (run clock_ms no_realpath
      [StartPreprocessFile (Some ''main.cpp'') None,
       StartOptPass (Some (sample_pass ''inline'')),
       EndParseFunction (sample_function ''f'' (Some ''NS'')),
       StartOptPass (Some (sample_pass ''dce'')), EndPreprocessFile] init_tracker)) init_output)))"
  using recorded_spans_ordered
          [of clock_ms no_realpath "[StartPreprocessFile (Some ''main.cpp'') None,
       StartOptPass (Some (sample_pass ''inline'')),
       EndParseFunction (sample_function ''f'' (Some ''NS'')),
       StartOptPass (Some (sample_pass ''dce'')), EndPreprocessFile]"
              "projr (run clock_ms no_realpath
      [StartPreprocessFile (Some ''main.cpp'') None,
       StartOptPass (Some (sample_pass ''inline'')),
       EndParseFunction (sample_function ''f'' (Some ''NS'')),
       StartOptPass (Some (sample_pass ''dce'')), EndPreprocessFile] init_tracker)" 7 "[(''main.cpp'', 1000000)]" init_output
              "fst (projr (write_all_events 7 clock_ms [(''main.cpp'', 1000000)]
      (projr (run clock_ms no_realpath
      [StartPreprocessFile (Some ''main.cpp'') None,
       StartOptPass (Some (sample_pass ''inline'')),
       EndParseFunction (sample_function ''f'' (Some ''NS'')),
       StartOptPass (Some (sample_pass ''dce'')), EndPreprocessFile] init_tracker)) init_output))" "snd (projr (write_all_events 7 clock_ms [(''main.cpp'', 1000000)]
      (projr (run clock_ms no_realpath
      [StartPreprocessFile (Some ''main.cpp'') None,
       StartOptPass (Some (sample_pass ''inline'')),
       EndParseFunction (sample_function ''f'' (Some ''NS'')),
       StartOptPass (Some (sample_pass ''dce'')), EndPreprocessFile] init_tracker)) init_output))"]
  by (simp add: monotone_clock_def strict_clock_def spaced_clock_def clock_ms_def
        start_preprocess_file_def
        end_preprocess_file_def ns_from_start_def init_tracker_def contains_def
        CIRCULAR_POISON_VALUE_def start_opt_pass_def end_parse_function_def sample_pass_def
        sample_function_def write_all_events_def write_preprocessing_events_def
        finish_preprocessing_stage_empty write_opt_pass_events_def write_all_functions_def
        write_all_scopes_def normalized_file_name_def map_index_def Let_def)

text \<open>
  C1 as stated fails. With a clock that advances 1 ns per reading, entering and leaving
  the main file and then parsing one function in a scope records the function span
  \<open>[8, 3]\<close> and the scope span \<open>[7, 4]\<close>. With a clock that returns each value twice, two
  passes started one after the other record the pass span \<open>[1, 0]\<close>.
\<close>

theorem recorded_spans_counterexample:
  "monotone_clock clock_1ns \<and> \<not> isl (run clock_1ns no_realpath
      [StartPreprocessFile (Some ''main.cpp'') None, EndPreprocessFile,
       EndParseFunction (sample_function ''f'' (Some ''NS''))] init_tracker) \<and>
   map fn_ev_ts (function_events (projr (run clock_1ns no_realpath
      [StartPreprocessFile (Some ''main.cpp'') None, EndPreprocessFile,
       EndParseFunction (sample_function ''f'' (Some ''NS''))] init_tracker))) = [\<lparr>ts_start = 8, ts_end = 3\<rparr>] \<and>
   map scope_ev_ts (scope_events (projr (run clock_1ns no_realpath
      [StartPreprocessFile (Some ''main.cpp'') None, EndPreprocessFile,
       EndParseFunction (sample_function ''f'' (Some ''NS''))] init_tracker))) = [\<lparr>ts_start = 7, ts_end = 4\<rparr>] \<and>
   monotone_clock clock_coarse \<and> \<not> isl (run clock_coarse no_realpath
      [StartOptPass (Some (sample_pass ''inline'')), StartOptPass (Some (sample_pass ''dce''))]
      init_tracker) \<and>
   map pass_ts (pass_events (projr (run clock_coarse no_realpath
      [StartOptPass (Some (sample_pass ''inline'')), StartOptPass (Some (sample_pass ''dce''))]
      init_tracker))) = [\<lparr>ts_start = 1, ts_end = 0\<rparr>]"
  by (simp add: monotone_clock_def clock_1ns_def clock_coarse_def div_le_mono
        start_preprocess_file_def
        end_preprocess_file_def ns_from_start_def init_tracker_def contains_def
        CIRCULAR_POISON_VALUE_def start_opt_pass_def end_parse_function_def sample_pass_def
        sample_function_def Let_def)

text \<open>
  C2. The claim has the emission step flush the pass still pending into the history with
  \<open>end = now()\<close>, so that the last of the passes started is written like the others. The
  code does not do that: \<open>write_all_events\<close> never reads \<open>last_pass\<close>. At the input below
  (the main file entered and not left, one pass started, a clock that advances 2 ms with
  every reading) the emission step closes the open file and writes its event, but the pass
  stays pending with its start time, the history stays empty, and the event array holds
  the \<open>TU\<close> pair and the file's pair only: no record of the pass, although a span from its
  start to any later reading is longer than the minimum.
\<close>

theorem pending_pass_lost_at_emission:
  "\<not> isl (run clock_2ms no_realpath
      [StartPreprocessFile (Some ''main.cpp'') None, StartOptPass (Some (sample_pass ''inline''))]
      init_tracker) \<and>
   preprocessing_stack (projr (run clock_2ms no_realpath
      [StartPreprocessFile (Some ''main.cpp'') None, StartOptPass (Some (sample_pass ''inline''))]
      init_tracker)) = [''main.cpp''] \<and>
   pass_events (projr (run clock_2ms no_realpath
      [StartPreprocessFile (Some ''main.cpp'') None, StartOptPass (Some (sample_pass ''inline''))]
      init_tracker)) = [] \<and>
   last_pass (projr (run clock_2ms no_realpath
      [StartPreprocessFile (Some ''main.cpp'') None, StartOptPass (Some (sample_pass ''inline''))]
      init_tracker)) =
     \<lparr>pass = Some (sample_pass ''inline''),
      pass_ts = \<lparr>ts_start = 2000001, ts_end = 2000000\<rparr>\<rparr> \<and>
   \<not> isl (write_all_events 7 clock_2ms [(''main.cpp'', 0)]
      (projr (run clock_2ms no_realpath
      [StartPreprocessFile (Some ''main.cpp'') None, StartOptPass (Some (sample_pass ''inline''))]
      init_tracker)) init_output) \<and>
   preprocessing_stack (fst (projr (write_all_events 7 clock_2ms [(''main.cpp'', 0)]
      (projr (run clock_2ms no_realpath
      [StartPreprocessFile (Some ''main.cpp'') None, StartOptPass (Some (sample_pass ''inline''))]
      init_tracker)) init_output))) = [] \<and>
   pass_events (fst (projr (write_all_events 7 clock_2ms [(''main.cpp'', 0)]
      (projr (run clock_2ms no_realpath
      [StartPreprocessFile (Some ''main.cpp'') None, StartOptPass (Some (sample_pass ''inline''))]
      init_tracker)) init_output))) = [] \<and>
   last_pass (fst (projr (write_all_events 7 clock_2ms [(''main.cpp'', 0)]
      (projr (run clock_2ms no_realpath
      [StartPreprocessFile (Some ''main.cpp'') None, StartOptPass (Some (sample_pass ''inline''))]
      init_tracker)) init_output))) =
     \<lparr>pass = Some (sample_pass ''inline''),
      pass_ts = \<lparr>ts_start = 2000001, ts_end = 2000000\<rparr>\<rparr> \<and>
   output_events_list (snd (projr (write_all_events 7 clock_2ms [(''main.cpp'', 0)]
      (projr (run clock_2ms no_realpath
      [StartPreprocessFile (Some ''main.cpp'') None, StartOptPass (Some (sample_pass ''inline''))]
      init_tracker)) init_output))) =
     [\<lparr>j_name = ''TU'', j_ph = ''B'', j_cat = ''TU'', j_ts = 0, j_pid = 7, j_tid = 0,
       j_uid = 0, j_args = []\<rparr>,
      \<lparr>j_name = ''TU'', j_ph = ''E'', j_cat = ''TU'', j_ts = 4000000, j_pid = 7, j_tid = 0,
       j_uid = 0, j_args = []\<rparr>,
      \<lparr>j_name = ''main.cpp'', j_ph = ''B'', j_cat = ''PREPROCESS'', j_ts = 0, j_pid = 7,
       j_tid = 0, j_uid = 1, j_args = []\<rparr>,
      \<lparr>j_name = ''main.cpp'', j_ph = ''E'', j_cat = ''PREPROCESS'', j_ts = 6000000, j_pid = 7,
       j_tid = 0, j_uid = 1, j_args = []\<rparr>]"
  by (simp add: clock_2ms_def ns_from_start_def init_tracker_def start_opt_pass_def
        start_preprocess_file_def end_preprocess_file_def contains_def
        CIRCULAR_POISON_VALUE_def
        write_all_events_def write_preprocessing_events_def finish_preprocessing_stage.simps
        write_opt_pass_events_def write_all_functions_def write_all_scopes_def add_event_def
        normalized_file_name_def map_index_def
        new_event_def MINIMUM_EVENT_LENGTH_NS_def category_string_def init_output_def Let_def)

text \<open>
  C3. Entering a file \<open>x\<close> twice and leaving twice, from the initial tracker: the second
  enter pushes \<open>CIRCULAR_POISON_VALUE\<close> instead of \<open>x\<close>; at the end \<open>x\<close> has the start time
  of the outer enter and the end time of the outer leave, and the sentinel has the times of
  the inner pair. \<open>write_preprocessing_events\<close> then hands exactly one event to
  \<open>add_event\<close>, the one for \<open>x\<close> with that outer span, whatever the clock and whatever the
  order in which the map is walked: the sentinel's record is skipped whatever its length.
\<close>

theorem circular_inclusion:
  assumes "x \<noteq> ''<command-line>''" and "x \<noteq> CIRCULAR_POISON_VALUE"
    and "run clk realpath
           [StartPreprocessFile (Some x) pf1, StartPreprocessFile (Some x) pf2,
            EndPreprocessFile, EndPreprocessFile] init_tracker = Inr s"
    and "enumerates items (preprocess_start s)"
  shows "(\<exists>s2. run clk realpath
                 [StartPreprocessFile (Some x) pf1, StartPreprocessFile (Some x) pf2]
                 init_tracker = Inr s2 \<and>
               preprocessing_stack s2 = [CIRCULAR_POISON_VALUE, x]) \<and>
         preprocess_start s = [x \<mapsto> clk 0, CIRCULAR_POISON_VALUE \<mapsto> clk 1] \<and>
         preprocess_end s = [CIRCULAR_POISON_VALUE \<mapsto> clk 2, x \<mapsto> clk 3] \<and>
         write_preprocessing_events pid clk items s out =
           Inr (s, add_event pid
                     \<lparr>ev_name = fst (normalized_file_name x s), ev_category = PREPROCESS,
                      ev_ts = \<lparr>ts_start = clk 0, ts_end = clk 3\<rparr>, ev_args = None\<rparr> out)"
proof -
  from assms(3) obtain s1 s2 s3 where
    e1: "start_preprocess_file clk realpath (Some x) pf1 init_tracker = Inr s1"
    and e2: "start_preprocess_file clk realpath (Some x) pf2 s1 = Inr s2"
    and l1: "end_preprocess_file clk s2 = Inr s3"
    and l2: "end_preprocess_file clk s3 = Inr s"
    by (auto split: sum.splits)
  from start_preprocess_file_tracked [OF e1 assms(1)]
  have s1: "ticks s1 = 1" "preprocess_start s1 = [x \<mapsto> clk 0]" "preprocess_end s1 = Map.empty"
    "preprocessing_stack s1 = [x]"
    by (auto simp: init_tracker_def contains_def)
  from start_preprocess_file_tracked [OF e2 assms(1)] assms(2)
  have s2: "ticks s2 = 2" "preprocess_start s2 = [x \<mapsto> clk 0, CIRCULAR_POISON_VALUE \<mapsto> clk 1]"
    "preprocess_end s2 = Map.empty" "preprocessing_stack s2 = [CIRCULAR_POISON_VALUE, x]"
    by (auto simp: s1 contains_def)
  from end_preprocess_file_fields [OF l1]
  have s3: "ticks s3 = 3" "preprocess_start s3 = [x \<mapsto> clk 0, CIRCULAR_POISON_VALUE \<mapsto> clk 1]"
    "preprocess_end s3 = [CIRCULAR_POISON_VALUE \<mapsto> clk 2]" "preprocessing_stack s3 = [x]"
    by (auto simp: s2 contains_def)
  from end_preprocess_file_fields [OF l2] assms(2)
  have s4: "preprocess_start s = [x \<mapsto> clk 0, CIRCULAR_POISON_VALUE \<mapsto> clk 1]"
    "preprocess_end s = [CIRCULAR_POISON_VALUE \<mapsto> clk 2, x \<mapsto> clk 3]" "preprocessing_stack s = []"
    by (auto simp: s3 contains_def)
  have inner: "\<exists>s2. run clk realpath
                 [StartPreprocessFile (Some x) pf1, StartPreprocessFile (Some x) pf2]
                 init_tracker = Inr s2 \<and>
               preprocessing_stack s2 = [CIRCULAR_POISON_VALUE, x]"
    by (simp add: e1 e2 s2)
  have fin: "finish_preprocessing_stage clk s = Inr s"
    by (rule finish_preprocessing_stage_empty) (rule s4)
  obtain nm where nm: "normalized_file_name x s = (nm, s)"
    using normalized_file_name_state [of x s] by (cases "normalized_file_name x s") simp
  from enumerates_two [OF assms(4) [unfolded s4(1)] assms(2)]
  have "write_preprocessing_loop pid items s out =
          Inr (s, add_event pid
                     \<lparr>ev_name = nm, ev_category = PREPROCESS,
                      ev_ts = \<lparr>ts_start = clk 0, ts_end = clk 3\<rparr>, ev_args = None\<rparr> out)"
    using assms(2) by (auto simp: s4 nm)
  then show ?thesis
    using inner s4(1,2) by (simp add: write_preprocessing_events_def fin nm)
qed


theorem circular_inclusion_witness:
  "''/src/x.h'' \<noteq> ''<command-line>'' \<and> ''/src/x.h'' \<noteq> CIRCULAR_POISON_VALUE \<and>
   run clock_2ms realpath_id
          [StartPreprocessFile (Some ''/src/x.h'') (Some \<lparr>cpp_dir_name = ''/src''\<rparr>),
           StartPreprocessFile (Some ''/src/x.h'') (Some \<lparr>cpp_dir_name = ''/src''\<rparr>),
           EndPreprocessFile, EndPreprocessFile] init_tracker = Inr (projr (run clock_2ms realpath_id
          [StartPreprocessFile (Some ''/src/x.h'') (Some \<lparr>cpp_dir_name = ''/src''\<rparr>),
           StartPreprocessFile (Some ''/src/x.h'') (Some \<lparr>cpp_dir_name = ''/src''\<rparr>),
           EndPreprocessFile, EndPreprocessFile] init_tracker)) \<and>
   enumerates [(CIRCULAR_POISON_VALUE, 2000000), (''/src/x.h'', 0)]
     (preprocess_start (projr (run clock_2ms realpath_id
          [StartPreprocessFile (Some ''/src/x.h'') (Some \<lparr>cpp_dir_name = ''/src''\<rparr>),
           StartPreprocessFile (Some ''/src/x.h'') (Some \<lparr>cpp_dir_name = ''/src''\<rparr>),
           EndPreprocessFile, EndPreprocessFile] init_tracker))) \<and>
   output_events_list (snd (projr
     (write_preprocessing_events 7 clock_2ms
        [(CIRCULAR_POISON_VALUE, 2000000), (''/src/x.h'', 0)] (projr (run clock_2ms realpath_id
          [StartPreprocessFile (Some ''/src/x.h'') (Some \<lparr>cpp_dir_name = ''/src''\<rparr>),
           StartPreprocessFile (Some ''/src/x.h'') (Some \<lparr>cpp_dir_name = ''/src''\<rparr>),
           EndPreprocessFile, EndPreprocessFile] init_tracker)) init_output)))
   = [\<lparr>j_name = ''x.h'', j_ph = ''B'', j_cat = ''PREPROCESS'', j_ts = 0, j_pid = 7, j_tid = 0,
       j_uid = 0, j_args = []\<rparr>,
      \<lparr>j_name = ''x.h'', j_ph = ''E'', j_cat = ''PREPROCESS'', j_ts = 6000000, j_pid = 7,
       j_tid = 0, j_uid = 0, j_args = []\<rparr>]"
  using circular_inclusion
          [of "''/src/x.h''" clock_2ms realpath_id "Some \<lparr>cpp_dir_name = ''/src''\<rparr>"
              "Some \<lparr>cpp_dir_name = ''/src''\<rparr>" "projr (run clock_2ms realpath_id
          [StartPreprocessFile (Some ''/src/x.h'') (Some \<lparr>cpp_dir_name = ''/src''\<rparr>),
           StartPreprocessFile (Some ''/src/x.h'') (Some \<lparr>cpp_dir_name = ''/src''\<rparr>),
           EndPreprocessFile, EndPreprocessFile] init_tracker)"
              "[(CIRCULAR_POISON_VALUE, 2000000), (''/src/x.h'', 0)]" 7 init_output]
  by (simp add: start_preprocess_file_def end_preprocess_file_def ns_from_start_def
        init_tracker_def contains_def CIRCULAR_POISON_VALUE_def clock_2ms_def enumerates_def
        realpath_id_def register_include_location_def starts_with_def substr_def
        normalized_file_name_def map_index_def add_event_def new_event_def
        MINIMUM_EVENT_LENGTH_NS_def category_string_def init_output_def Let_def)

text \<open>
  C4. From the initial tables, registering \<open>/a/b/c.h\<close> under \<open>/a/b\<close> succeeds and makes
  \<open>normalized_file_name\<close> return \<open>c.h\<close> for it. If any other path \<open>p2\<close> is registered next
  under a directory \<open>d2\<close> that also leaves \<open>c.h\<close> after the prefix and one separator are
  cut off, then \<open>normalized_file_name\<close> returns each of the two paths as it was given.
\<close>

theorem path_normalization_round_trip:
  "(case register_include_location ''/a/b/c.h'' ''/a/b'' init_tracker of
      Inl e \<Rightarrow> False
    | Inr s1 \<Rightarrow>
        fst (normalized_file_name ''/a/b/c.h'' s1) = ''c.h'' \<and>
        (p2 \<noteq> ''/a/b/c.h'' \<and> starts_with p2 d2 \<and> substr p2 (length d2 + 1) = Inr ''c.h'' \<longrightarrow>
           (case register_include_location p2 d2 s1 of
              Inl e \<Rightarrow> False
            | Inr s2 \<Rightarrow>
                fst (normalized_file_name ''/a/b/c.h'' s2) = ''/a/b/c.h'' \<and>
                fst (normalized_file_name p2 s2) = p2)))"
  by (auto simp: register_include_location_def init_tracker_def contains_def starts_with_def
        substr_def normalized_file_name_def map_index_def Let_def split: if_splits)

theorem path_normalization_round_trip_witness:
  "(case register_include_location ''/a/b/c.h'' ''/a/b'' init_tracker of
      Inl e \<Rightarrow> False
    | Inr s1 \<Rightarrow>
        fst (normalized_file_name ''/a/b/c.h'' s1) = ''c.h'' \<and>
        (''/x/c.h'' \<noteq> ''/a/b/c.h'' \<and> starts_with ''/x/c.h'' ''/x'' \<and> substr ''/x/c.h'' (length ''/x'' + 1) = Inr ''c.h'' \<and>
           (case register_include_location ''/x/c.h'' ''/x'' s1 of
              Inl e \<Rightarrow> False
            | Inr s2 \<Rightarrow>
                fst (normalized_file_name ''/a/b/c.h'' s2) = ''/a/b/c.h'' \<and>
                fst (normalized_file_name ''/x/c.h'' s2) = ''/x/c.h'')))"
  using path_normalization_round_trip [of "''/x/c.h''" "''/x''"]
  by (simp add: register_include_location_def init_tracker_def contains_def starts_with_def
        substr_def Let_def)

text \<open>
  C5. \<open>add_event\<close> returns the output unchanged for an event whose \<open>end - start\<close> is below
  1,000,000 ns. Any other event is appended as one \<open>B\<close> record carrying \<open>start\<close> followed
  by one \<open>E\<close> record carrying \<open>end\<close>, both with the current \<open>UID\<close>, which is then
  incremented. Over successive calls the appended records are therefore the pairs of the
  surviving events in order, the \<open>k\<close>-th survivor under \<open>UID + k\<close>.
\<close>

theorem add_event_filter_and_pairs:
  "(ts_end (ev_ts e) - ts_start (ev_ts e) < 1000000 \<longrightarrow> add_event pid e out = out) \<and>
   (\<not> ts_end (ev_ts e) - ts_start (ev_ts e) < 1000000 \<longrightarrow>
      add_event pid e out =
        out\<lparr>UID := UID out + 1,
            output_events_list := output_events_list out @
              [\<lparr>j_name = ev_name e, j_ph = ''B'', j_cat = category_string (ev_category e),
                j_ts = ts_start (ev_ts e), j_pid = pid, j_tid = 0, j_uid = UID out,
                j_args = (case ev_args e of None \<Rightarrow> [] | Some kvs \<Rightarrow> kvs)\<rparr>,
               \<lparr>j_name = ev_name e, j_ph = ''E'', j_cat = category_string (ev_category e),
                j_ts = ts_end (ev_ts e), j_pid = pid, j_tid = 0, j_uid = UID out,
                j_args = (case ev_args e of None \<Rightarrow> [] | Some kvs \<Rightarrow> kvs)\<rparr>]\<rparr>) \<and>
   output_events_list (add_events pid es out) =
     output_events_list out @
       concat (map (\<lambda>(k, e). event_pair pid (UID out + int k) e)
                 (enumerate 0 (filter long_enough es)))"
  by (simp add: add_events_list)
     (simp add: add_event_def MINIMUM_EVENT_LENGTH_NS_def new_event_def Let_def)

theorem add_event_filter_and_pairs_witness:
  "(ts_end (ev_ts (sample_event ''a'' 0 999999)) - ts_start (ev_ts (sample_event ''a'' 0 999999))
        < 1000000 \<and>
      add_event 7 (sample_event ''a'' 0 999999) init_output = init_output) \<and>
   (\<not> ts_end (ev_ts (sample_event ''b'' 5 1000006)) - ts_start (ev_ts (sample_event ''b'' 5 1000006))
        < 1000000 \<and>
      output_events_list (add_event 7 (sample_event ''b'' 5 1000006) init_output) =
        [\<lparr>j_name = ''b'', j_ph = ''B'', j_cat = ''FUNCTION'', j_ts = 5, j_pid = 7, j_tid = 0,
          j_uid = 0, j_args = []\<rparr>,
         \<lparr>j_name = ''b'', j_ph = ''E'', j_cat = ''FUNCTION'', j_ts = 1000006, j_pid = 7, j_tid = 0,
          j_uid = 0, j_args = []\<rparr>]) \<and>
   map j_uid (output_events_list
     (add_events 7 [sample_event ''a'' 0 999999, sample_event ''b'' 5 1000006,
                    sample_event ''c'' 0 1000000] init_output)) = [0, 0, 1, 1]"
  using add_event_filter_and_pairs [of "sample_event ''a'' 0 999999" 7 init_output "[]"]
        add_event_filter_and_pairs [of "sample_event ''b'' 5 1000006" 7 init_output
          "[sample_event ''a'' 0 999999, sample_event ''b'' 5 1000006,
            sample_event ''c'' 0 1000000]"]
  by (simp add: sample_event_def init_output_def category_string_def long_enough_def
        MINIMUM_EVENT_LENGTH_NS_def event_pair_def new_event_def add_event_def Let_def)

text \<open>
  C6. Three calls of \<open>end_parse_function\<close> in a row with the same scope name \<open>ns\<close>, from a
  tracker that is not in the middle of a run of \<open>ns\<close>, add exactly one scope record. Its
  span starts one nanosecond before the start of the first of the three function records
  and ends one nanosecond after the end of the last. A following function with another
  scope name adds a new record; a following function without a scope adds none, and the
  function after that opens a new record even when its scope is \<open>ns\<close> again.
\<close>

theorem scope_coalescing:
  assumes "ff_scope_name f1 = Some ns" and "ff_scope_name f2 = Some ns" and "ff_scope_name f3 = Some ns"
    and "\<not> (scope_events s \<noteq> [] \<and> did_last_function_have_scope s
              \<and> scope_ev_name (last (scope_events s)) = ns)"
  shows "let s3 = end_parse_function clk f3 (end_parse_function clk f2 (end_parse_function clk f1 s));
             n = length (function_events s)
         in length (function_events s3) = n + 3 \<and>
            ts_start (fn_ev_ts (function_events s3 ! n)) = last_function_parsed_ts s + 3 \<and>
            ts_end (fn_ev_ts (last (function_events s3))) = clk (ticks s + 2) \<and>
            scope_events s3 = scope_events s @
              [\<lparr>scope_ev_name = ns, scope_ev_type = ff_scope_type f1,
                scope_ev_ts = \<lparr>ts_start = ts_start (fn_ev_ts (function_events s3 ! n)) - 1,
                               ts_end = ts_end (fn_ev_ts (last (function_events s3))) + 1\<rparr>\<rparr>] \<and>
            (ff_scope_name g = Some ns' \<and> ns' \<noteq> ns \<longrightarrow>
               scope_events (end_parse_function clk g s3) = scope_events s3 @
                 [\<lparr>scope_ev_name = ns', scope_ev_type = ff_scope_type g,
                   scope_ev_ts = \<lparr>ts_start = last_function_parsed_ts s3 + 3 - 1,
                                  ts_end = clk (ticks s3) + 1\<rparr>\<rparr>]) \<and>
            (ff_scope_name h = None \<and> ff_scope_name k = Some ns \<longrightarrow>
               scope_events (end_parse_function clk h s3) = scope_events s3 \<and>
               scope_events (end_parse_function clk k (end_parse_function clk h s3)) = scope_events s3 @
                 [\<lparr>scope_ev_name = ns, scope_ev_type = ff_scope_type k,
                   scope_ev_ts = \<lparr>ts_start = last_function_parsed_ts (end_parse_function clk h s3) + 3 - 1,
                                  ts_end = clk (ticks s3 + 1) + 1\<rparr>\<rparr>])"
proof -
  define s1 where "s1 = end_parse_function clk f1 s"
  define s2 where "s2 = end_parse_function clk f2 s1"
  define s3 where "s3 = end_parse_function clk f3 s2"
  have sc1: "scope_events s1 = scope_events s @
      [\<lparr>scope_ev_name = ns, scope_ev_type = ff_scope_type f1,
        scope_ev_ts = \<lparr>ts_start = last_function_parsed_ts s + 3 - 1, ts_end = clk (ticks s) + 1\<rparr>\<rparr>]"
    unfolding s1_def using assms(1,4) by (rule end_parse_function_scope_new)
  have d1: "did_last_function_have_scope s1"
    by (simp add: s1_def end_parse_function_fields(9) assms(1))
  have sc2: "scope_events s2 = scope_events s @
      [\<lparr>scope_ev_name = ns, scope_ev_type = ff_scope_type f1,
        scope_ev_ts = \<lparr>ts_start = last_function_parsed_ts s + 3 - 1, ts_end = clk (ticks s1) + 1\<rparr>\<rparr>]"
    unfolding s2_def by (subst end_parse_function_scope_extend [OF assms(2)]) (simp_all add: sc1 d1)
  have d2: "did_last_function_have_scope s2"
    by (simp add: s2_def end_parse_function_fields(9) assms(2))
  have sc3: "scope_events s3 = scope_events s @
      [\<lparr>scope_ev_name = ns, scope_ev_type = ff_scope_type f1,
        scope_ev_ts = \<lparr>ts_start = last_function_parsed_ts s + 3 - 1, ts_end = clk (ticks s2) + 1\<rparr>\<rparr>]"
    unfolding s3_def by (subst end_parse_function_scope_extend [OF assms(3)]) (simp_all add: sc2 d2)
  have d3: "did_last_function_have_scope s3"
    by (simp add: s3_def end_parse_function_fields(9) assms(3))
  have t2: "ticks s2 = ticks s + 2" and t3: "ticks s3 = ticks s + 3"
    by (simp_all add: s3_def s2_def s1_def end_parse_function_fields(1))
  have fe: "function_events s3 = function_events s @
     [\<lparr>fn_ev_name = ff_name f1, fn_ev_file_name = ff_file_name f1,
       fn_ev_ts = \<lparr>ts_start = last_function_parsed_ts s + 3, ts_end = clk (ticks s)\<rparr>\<rparr>,
      \<lparr>fn_ev_name = ff_name f2, fn_ev_file_name = ff_file_name f2,
       fn_ev_ts = \<lparr>ts_start = last_function_parsed_ts s1 + 3, ts_end = clk (ticks s1)\<rparr>\<rparr>,
      \<lparr>fn_ev_name = ff_name f3, fn_ev_file_name = ff_file_name f3,
       fn_ev_ts = \<lparr>ts_start = last_function_parsed_ts s2 + 3, ts_end = clk (ticks s2)\<rparr>\<rparr>]"
    by (simp add: s3_def s2_def s1_def end_parse_function_fields(8))
  have change: "scope_events (end_parse_function clk g s3) = scope_events s3 @
                 [\<lparr>scope_ev_name = ns', scope_ev_type = ff_scope_type g,
                   scope_ev_ts = \<lparr>ts_start = last_function_parsed_ts s3 + 3 - 1,
                                  ts_end = clk (ticks s3) + 1\<rparr>\<rparr>]"
    if "ff_scope_name g = Some ns'" "ns' \<noteq> ns"
    using that by (intro end_parse_function_scope_new) (simp_all add: sc3)
  have unscoped: "scope_events (end_parse_function clk h s3) = scope_events s3 \<and>
               scope_events (end_parse_function clk k (end_parse_function clk h s3)) = scope_events s3 @
                 [\<lparr>scope_ev_name = ns, scope_ev_type = ff_scope_type k,
                   scope_ev_ts = \<lparr>ts_start = last_function_parsed_ts (end_parse_function clk h s3) + 3 - 1,
                                  ts_end = clk (ticks s3 + 1) + 1\<rparr>\<rparr>]"
    if "ff_scope_name h = None" "ff_scope_name k = Some ns"
  proof -
    have a: "scope_events (end_parse_function clk h s3) = scope_events s3"
      using that(1) by (rule end_parse_function_scope_none)
    have b: "\<not> did_last_function_have_scope (end_parse_function clk h s3)"
      by (simp add: end_parse_function_fields(9) that(1))
    have "scope_events (end_parse_function clk k (end_parse_function clk h s3)) =
        scope_events (end_parse_function clk h s3) @
                 [\<lparr>scope_ev_name = ns, scope_ev_type = ff_scope_type k,
                   scope_ev_ts = \<lparr>ts_start = last_function_parsed_ts (end_parse_function clk h s3) + 3 - 1,
                                  ts_end = clk (ticks (end_parse_function clk h s3)) + 1\<rparr>\<rparr>]"
      using that(2) by (rule end_parse_function_scope_new) (simp add: b)
    then show ?thesis by (simp add: a end_parse_function_fields(1))
  qed
  have "length (function_events s3) = length (function_events s) + 3 \<and>
            ts_start (fn_ev_ts (function_events s3 ! length (function_events s))) = last_function_parsed_ts s + 3 \<and>
            ts_end (fn_ev_ts (last (function_events s3))) = clk (ticks s + 2)"
    by (simp add: fe t2 nth_append)
  with sc3 change unscoped show ?thesis
    unfolding Let_def s3_def [symmetric] s2_def [symmetric] s1_def [symmetric]
    by (simp add: t2)
qed

theorem scope_coalescing_witness:
  "ff_scope_name (sample_function ''f1'' (Some ''NS'')) = Some ''NS'' \<and>
   ff_scope_name (sample_function ''f2'' (Some ''NS'')) = Some ''NS'' \<and>
   ff_scope_name (sample_function ''f3'' (Some ''NS'')) = Some ''NS'' \<and>
   \<not> (scope_events init_tracker \<noteq> [] \<and> did_last_function_have_scope init_tracker
        \<and> scope_ev_name (last (scope_events init_tracker)) = ''NS'') \<and>
   scope_events
     (end_parse_function clock_2ms (sample_function ''f3'' (Some ''NS''))
        (end_parse_function clock_2ms (sample_function ''f2'' (Some ''NS''))
           (end_parse_function clock_2ms (sample_function ''f1'' (Some ''NS'')) init_tracker)))
     = [\<lparr>scope_ev_name = ''NS'', scope_ev_type = NAMESPACE,
         scope_ev_ts = \<lparr>ts_start = 2, ts_end = 4000001\<rparr>\<rparr>] \<and>
   ff_scope_name (sample_function ''g'' (Some ''MS'')) = Some ''MS'' \<and> ''MS'' \<noteq> ''NS'' \<and>
   scope_events
     (end_parse_function clock_2ms (sample_function ''g'' (Some ''MS''))
       (end_parse_function clock_2ms (sample_function ''f3'' (Some ''NS''))
          (end_parse_function clock_2ms (sample_function ''f2'' (Some ''NS''))
             (end_parse_function clock_2ms (sample_function ''f1'' (Some ''NS'')) init_tracker))))
     = [\<lparr>scope_ev_name = ''NS'', scope_ev_type = NAMESPACE,
         scope_ev_ts = \<lparr>ts_start = 2, ts_end = 4000001\<rparr>\<rparr>,
        \<lparr>scope_ev_name = ''MS'', scope_ev_type = NAMESPACE,
         scope_ev_ts = \<lparr>ts_start = 4000002, ts_end = 6000001\<rparr>\<rparr>] \<and>
   ff_scope_name (sample_function ''h'' None) = None \<and>
   ff_scope_name (sample_function ''k'' (Some ''NS'')) = Some ''NS'' \<and>
   scope_events
     (end_parse_function clock_2ms (sample_function ''k'' (Some ''NS''))
       (end_parse_function clock_2ms (sample_function ''h'' None)
         (end_parse_function clock_2ms (sample_function ''f3'' (Some ''NS''))
          (end_parse_function clock_2ms (sample_function ''f2'' (Some ''NS''))
             (end_parse_function clock_2ms (sample_function ''f1'' (Some ''NS'')) init_tracker)))))
     = [\<lparr>scope_ev_name = ''NS'', scope_ev_type = NAMESPACE,
         scope_ev_ts = \<lparr>ts_start = 2, ts_end = 4000001\<rparr>\<rparr>,
        \<lparr>scope_ev_name = ''NS'', scope_ev_type = NAMESPACE,
         scope_ev_ts = \<lparr>ts_start = 6000002, ts_end = 8000001\<rparr>\<rparr>]"
  using scope_coalescing
          [where ?f1.0 = "sample_function ''f1'' (Some ''NS'')"
             and ?f2.0 = "sample_function ''f2'' (Some ''NS'')"
             and ?f3.0 = "sample_function ''f3'' (Some ''NS'')"
             and ns = "''NS''" and s = init_tracker and clk = clock_2ms
             and g = "sample_function ''g'' (Some ''MS'')" and ns' = "''MS''"
             and h = "sample_function ''h'' None"
             and k = "sample_function ''k'' (Some ''NS'')"]
  by (simp add: sample_function_def init_tracker_def clock_2ms_def Let_def
        end_parse_function_fields)

text \<open>
  C7. \<open>normalized_file_name\<close> (resolve) returns for every path and leaves the tracker,
  and so the normalisation tables, as it found them. Its result is the stored normalised
  name when the path is a key of \<open>normalized_files_map\<close> and that name is not in
  \<open>conflicted_files\<close>, and the path itself in every other case.
\<close>

theorem normalized_file_name_pure_total:
  "normalized_file_name file_name s =
     ((case normalized_files_map s file_name of
         None \<Rightarrow> file_name
       | Some v \<Rightarrow> if v \<in> conflicted_files s then file_name else v), s)"
  by (cases "normalized_files_map s file_name")
     (simp_all add: normalized_file_name_def contains_def map_index_present)

text \<open>
  C8. With an empty preprocessing stack \<open>finish_preprocessing_stage\<close> returns the tracker
  it was given, whole: the inclusion maps, the stack and \<open>last_function_parsed_ts\<close> are
  unchanged, and not even the clock is read. The same holds for any number \<open>n\<close> of calls
  in a row.
\<close>

theorem finish_preprocessing_stage_idempotent:
  "preprocessing_stack s = [] \<Longrightarrow>
   finish_preprocessing_stage clk s = Inr s \<and>
   run clk realpath (replicate n FinishPreprocessingStage) s = Inr s"
  by (induction n) (simp_all add: finish_preprocessing_stage_empty)

theorem finish_preprocessing_stage_idempotent_witness:
  "preprocessing_stack init_tracker = [] \<and>
   finish_preprocessing_stage clock_2ms init_tracker = Inr init_tracker \<and>
   run clock_2ms no_realpath (replicate 3 FinishPreprocessingStage) init_tracker = Inr init_tracker"
  using finish_preprocessing_stage_idempotent [of init_tracker clock_2ms no_realpath 3]
  by (simp add: init_tracker_def)

text \<open>
  C9. For every \<open>pfile\<close>, \<open>start_preprocess_file\<close> called with a null file name or with
  \<open><command-line>\<close> returns at once. The clock has been read by then (\<open>ticks\<close> counts the
  reading), and nothing else differs: the inclusion maps, the stack, the normalisation
  tables and \<open>last_function_parsed_ts\<close> are those of before the call.
\<close>

theorem start_preprocess_file_filtered:
  "file_name = None \<or> file_name = Some ''<command-line>'' \<Longrightarrow>
   start_preprocess_file clk realpath file_name pfile s = Inr (s\<lparr>ticks := Suc (ticks s)\<rparr>)"
  by (auto simp: start_preprocess_file_def ns_from_start_def)

theorem start_preprocess_file_filtered_witness:
  "(Some ''<command-line>'' = None \<or> Some ''<command-line>'' = Some ''<command-line>'') \<and>
   start_preprocess_file clock_2ms no_realpath (Some ''<command-line>'')
       (Some \<lparr>cpp_dir_name = ''/usr/include''\<rparr>) init_tracker
     = Inr (init_tracker\<lparr>ticks := Suc (ticks init_tracker)\<rparr>)"
  using start_preprocess_file_filtered
          [of "Some ''<command-line>''" clock_2ms no_realpath
              "Some \<lparr>cpp_dir_name = ''/usr/include''\<rparr>" init_tracker]
  by simp

text \<open>
  C10. After any run of callbacks in which no call failed (so \<open>end_preprocess_file\<close> was
  never reached with an empty stack), \<open>finish_preprocessing_stage\<close> returns, leaves
  \<open>preprocess_start\<close> as it was, and every key of \<open>preprocess_start\<close> is then a key of
  \<open>preprocess_end\<close>. So \<open>write_preprocessing_events\<close>, walking \<open>preprocess_start\<close> in
  whatever order, returns a result: the lookup \<open>preprocess_end.at(file)\<close> never fails.
\<close>

theorem preprocess_end_lookup_never_fails:
  assumes "run clk realpath cbs init_tracker = Inr s"
    and "enumerates items (preprocess_start s)"
  shows "\<exists>s' out'. finish_preprocessing_stage clk s = Inr s' \<and>
           preprocess_start s' = preprocess_start s \<and>
           (\<forall>f. contains (preprocess_start s') f \<longrightarrow> contains (preprocess_end s') f) \<and>
           write_preprocessing_events pid clk items s out = Inr (s', out')"
proof -
  from finish_preprocessing_stage_total obtain s' where
    fin: "finish_preprocessing_stage clk s = Inr s'" and empty: "preprocessing_stack s' = []"
    by blast
  have "open_files_on_stack s" using assms(1) by (rule open_files_run)
  then have "open_files_on_stack s'"
    using open_files_step [of s clk realpath FinishPreprocessingStage s'] fin by simp
  with empty have closed: "\<forall>f. contains (preprocess_start s') f \<longrightarrow> contains (preprocess_end s') f"
    by (simp add: open_files_on_stack_def)
  have st: "preprocess_start s' = preprocess_start s"
    using fin by (rule finish_keeps_preprocess_start)
  have "\<forall>(f, a) \<in> set items. contains (preprocess_start s') f"
    using enumerates_member [OF assms(2)] by (auto simp: st contains_def)
  with closed have "\<forall>(f, a) \<in> set items. f \<noteq> CIRCULAR_POISON_VALUE \<longrightarrow> contains (preprocess_end s') f"
    by auto
  from write_preprocessing_loop_total [OF this]
  obtain out' where "write_preprocessing_loop pid items s' out = Inr (s', out')" by blast
  then have "write_preprocessing_events pid clk items s out = Inr (s', out')"
    by (simp add: write_preprocessing_events_def fin)
  with fin st closed show ?thesis by blast
qed


theorem preprocess_end_lookup_never_fails_witness:
  "run clock_2ms no_realpath
       [StartPreprocessFile (Some ''main.cpp'') None, StartPreprocessFile (Some ''a.h'') None,
        EndPreprocessFile] init_tracker
     = Inr (projr (run clock_2ms no_realpath
       [StartPreprocessFile (Some ''main.cpp'') None, StartPreprocessFile (Some ''a.h'') None,
        EndPreprocessFile] init_tracker)) \<and>
   enumerates [(''a.h'', 2000000), (''main.cpp'', 0)]
     (preprocess_start (projr (run clock_2ms no_realpath
       [StartPreprocessFile (Some ''main.cpp'') None, StartPreprocessFile (Some ''a.h'') None,
        EndPreprocessFile] init_tracker))) \<and>
   (\<exists>s' out'.
      write_preprocessing_events 7 clock_2ms [(''a.h'', 2000000), (''main.cpp'', 0)]
        (projr (run clock_2ms no_realpath
          [StartPreprocessFile (Some ''main.cpp'') None, StartPreprocessFile (Some ''a.h'') None,
           EndPreprocessFile] init_tracker)) init_output = Inr (s', out'))"
  using preprocess_end_lookup_never_fails [of clock_2ms no_realpath
       "[StartPreprocessFile (Some ''main.cpp'') None, StartPreprocessFile (Some ''a.h'') None,
        EndPreprocessFile]"
       "projr (run clock_2ms no_realpath
       [StartPreprocessFile (Some ''main.cpp'') None, StartPreprocessFile (Some ''a.h'') None,
        EndPreprocessFile] init_tracker)"
       "[(''a.h'', 2000000), (''main.cpp'', 0)]" 7 init_output]
  by (simp add: start_preprocess_file_def end_preprocess_file_def ns_from_start_def
        init_tracker_def contains_def CIRCULAR_POISON_VALUE_def clock_2ms_def enumerates_def
        Let_def)
     blast

end
